theory Spec2Isabelle
  imports Main "HOL-Library.AList" "HOL-Library.Sublist"
begin

section \<open>Strings\<close>

text \<open>
  JavaScript strings are modelled as \<^typ>\<open>string\<close>, one \<^typ>\<open>char\<close> per code unit
  (code units up to 255). \<open>isSpace\<close> is the class \<^verbatim>\<open>\s\<close> of regular expressions and of
  \<^verbatim>\<open>String.prototype.trim\<close> within that range: tab, line feed, vertical tab, form feed,
  carriage return, space and the no-break space.
\<close>

definition isSpace :: "char \<Rightarrow> bool" where
  "isSpace c = (c = CHR 0x09 \<or> c = CHR 0x0A \<or> c = CHR 0x0B \<or> c = CHR 0x0C \<or> c = CHR 0x0D
      \<or> c = CHR 0x20 \<or> c = CHR 0xA0)"

definition trim :: "string \<Rightarrow> string" where
  "trim s = rev (dropWhile isSpace (rev (dropWhile isSpace s)))"

text \<open>\<^verbatim>\<open>x.replace(/\s+/g, " ")\<close>: every maximal run of white space becomes one space.\<close>

function collapseSpace :: "string \<Rightarrow> string" where
  "collapseSpace [] = []"
| "collapseSpace (c # cs) =
     (if isSpace c then CHR 0x20 # collapseSpace (dropWhile isSpace cs)
      else c # collapseSpace cs)"
  by pat_completeness auto
termination
  by (relation "measure length") (auto simp: less_Suc_eq_le length_dropWhile_le)

text \<open>\<^verbatim>\<open>normalizeXml\<close> (lines 672 to 675).\<close>

definition normalizeXml :: "string \<Rightarrow> string" where
  "normalizeXml x = trim (collapseSpace x)"

text \<open>\<^verbatim>\<open>s.replace(/c/g, r)\<close> for a single character \<open>c\<close>.\<close>

definition replaceChar :: "char \<Rightarrow> string \<Rightarrow> string \<Rightarrow> string" where
  "replaceChar c r s = concat (map (\<lambda>x. if x = c then r else [x]) s)"

text \<open>\<^verbatim>\<open>escapeXml\<close> (lines 623 to 630): five replacements, in the order of the source.\<close>

definition escapeXml :: "string \<Rightarrow> string" where
  "escapeXml s =
     replaceChar (CHR 0x27) ''&#39;''
      (replaceChar (CHR 0x22) ''&quot;''
        (replaceChar CHR ''>'' ''&gt;''
          (replaceChar CHR ''<'' ''&lt;''
            (replaceChar CHR ''&'' ''&amp;'' s))))"

text \<open>
  \<^verbatim>\<open>String(n)\<close> for a non-negative integer \<open>n\<close>: its decimal digits. (JavaScript numbers
  are doubles; time stamps and their successors stay far below \<open>2^53\<close>, where doubles are
  exact integers.)
\<close>

definition digitChar :: "nat \<Rightarrow> char" where
  "digitChar d = ''0123456789'' ! d"

fun numString :: "nat \<Rightarrow> string" where
  "numString n = (if n < 10 then [digitChar n] else numString (n div 10) @ [digitChar (n mod 10)])"

declare numString.simps [simp del]

text \<open>\<^verbatim>\<open>chunks.join(sep)\<close>.\<close>

fun joinWith :: "string \<Rightarrow> string list \<Rightarrow> string" where
  "joinWith sep [] = []"
| "joinWith sep [x] = x"
| "joinWith sep (x # y # ys) = x @ sep @ joinWith sep (y # ys)"

section \<open>The document tree of the markup library\<close>

text \<open>
  The source reads and writes storage markup through the cheerio library, always loaded
  with \<^verbatim>\<open>xmlMode: true, decodeEntities: false\<close> and case-preserving names. The library
  (with its parser htmlparser2 and its serializer dom-serializer) is not part of the
  repository. It is modelled here by the tree it builds (elements with attributes,
  character data, comments, directives and CDATA sections), by its tokenizer and tree
  builder in XML mode, by its serializer \<^verbatim>\<open>$.xml\<close>, and by the selectors the source
  uses. With \<^verbatim>\<open>decodeEntities: false\<close> character data and attribute values are kept as
  they are written: \<^verbatim>\<open>&amp;\<close> stays five characters, in the tree and in what
  \<^verbatim>\<open>.text()\<close> returns. Markup made of tags, attributes, character data, comments,
  directives and CDATA sections is read as the library reads it; of an input that ends
  inside a tag the model drops the unfinished tag.
\<close>

datatype node =
    Text string
  | Element string "(string \<times> string) list" "node list"
  | Comment string
  | Directive string
  | CData string

subsection \<open>Serializer\<close>

definition formatAttr :: "string \<times> string \<Rightarrow> string" where
  "formatAttr kv = CHR 0x20 # fst kv @ [CHR ''='', CHR 0x22]
      @ replaceChar (CHR 0x22) ''&quot;'' (snd kv) @ [CHR 0x22]"

fun xmlNode :: "node \<Rightarrow> string" where
  "xmlNode (Text d) = d"
| "xmlNode (Element n as cs) =
     (if cs = [] then ''<'' @ n @ concat (map formatAttr as) @ ''/>''
      else ''<'' @ n @ concat (map formatAttr as) @ ''>'' @ concat (map xmlNode cs)
           @ ''</'' @ n @ ''>'')"
| "xmlNode (Comment d) = ''<!--'' @ d @ ''-->''"
| "xmlNode (Directive d) = ''<'' @ d @ ''>''"
| "xmlNode (CData d) = ''<![CDATA['' @ d @ '']]>''"

text \<open>\<^verbatim>\<open>$.xml()\<close> of a list of nodes (the document's children, or a selection).\<close>

definition xml :: "node list \<Rightarrow> string" where
  "xml ns = concat (map xmlNode ns)"

subsection \<open>Tokenizer\<close>

datatype tstate =
    SText | SBeforeTagName | SInTagName | SBeforeAttrName | SInSelfClosing
  | SInAttrName | SAfterAttrName | SBeforeAttrValue
  | SInAttrValueDq | SInAttrValueSq | SInAttrValueNq
  | SBeforeClosingTagName | SInClosingTagName | SAfterClosingTagName
  | SBeforeDeclaration | SInDeclaration | SInProcessingInstruction
  | SCDataSequence nat | SBeforeComment | SInComment nat | SInCData nat | SInSpecialComment

datatype event =
    EvText string | EvOpenName string | EvAttr string string | EvOpenEnd | EvSelfClose
  | EvClose string | EvComment string | EvCData string | EvDirective string

text \<open>
  The tokenizer reads one character at a time. Its arguments are the current state, the
  characters of the current section (in reverse), the name of the attribute being read,
  the events emitted so far (in reverse) and the rest of the input. Where the library
  hands the current character on to another state, the call keeps the character;
  \<open>stateRank\<close> bounds such hand-overs. At the end of the input a section left open in
  a comment or CDATA section is emitted as such, one left inside a tag is dropped, any
  other is character data.
\<close>

definition isWhitespace :: "char \<Rightarrow> bool" where
  "isWhitespace c = (c = CHR 0x20 \<or> c = CHR 0x0A \<or> c = CHR 0x09 \<or> c = CHR 0x0C \<or> c = CHR 0x0D)"

definition isEndOfTagSection :: "char \<Rightarrow> bool" where
  "isEndOfTagSection c = (c = CHR ''/'' \<or> c = CHR ''>'' \<or> isWhitespace c)"

text \<open>
  Progress through an end sequence (\<^verbatim>\<open>-->\<close> or \<^verbatim>\<open>]]>\<close>) of which \<open>k\<close> characters are
  matched: the number matched after the next character.
\<close>

definition seqNext :: "string \<Rightarrow> nat \<Rightarrow> char \<Rightarrow> nat" where
  "seqNext sq k c =
     (if c = sq ! k then Suc k
      else if k = 0 then 0
      else if c \<noteq> sq ! (k - 1) then 0
      else k)"

fun stateRank :: "tstate \<Rightarrow> nat" where
  "stateRank SInAttrName = 2"
| "stateRank SBeforeAttrValue = 2"
| "stateRank SAfterAttrName = 1"
| "stateRank SInAttrValueNq = 1"
| "stateRank SInTagName = 1"
| "stateRank SInSelfClosing = 1"
| "stateRank SInClosingTagName = 1"
| "stateRank (SCDataSequence k) = 1"
| "stateRank SBeforeTagName = 1"
| "stateRank _ = 0"

function tokenizeFrom :: "tstate \<Rightarrow> string \<Rightarrow> string \<Rightarrow> event list \<Rightarrow> string \<Rightarrow> event list" where
  "tokenizeFrom SText sect attr evs (c # cs) =
     (if c = CHR ''<''
      then tokenizeFrom SBeforeTagName [c] attr (if sect = [] then evs else EvText (rev sect) # evs) cs
      else tokenizeFrom SText (c # sect) attr evs cs)"
| "tokenizeFrom SBeforeTagName sect attr evs (c # cs) =
     (if c = CHR ''!'' then tokenizeFrom SBeforeDeclaration [] attr evs cs
      else if c = CHR ''?'' then tokenizeFrom SInProcessingInstruction [] attr evs cs
      else if \<not> isEndOfTagSection c then tokenizeFrom SInTagName [c] attr evs cs
      else if c = CHR ''/'' then tokenizeFrom SBeforeClosingTagName (c # sect) attr evs cs
      else tokenizeFrom SText sect attr evs (c # cs))"
| "tokenizeFrom SInTagName sect attr evs (c # cs) =
     (if isEndOfTagSection c
      then tokenizeFrom SBeforeAttrName [] attr (EvOpenName (rev sect) # evs) (c # cs)
      else tokenizeFrom SInTagName (c # sect) attr evs cs)"
| "tokenizeFrom SBeforeAttrName sect attr evs (c # cs) =
     (if c = CHR ''>'' then tokenizeFrom SText [] attr (EvOpenEnd # evs) cs
      else if c = CHR ''/'' then tokenizeFrom SInSelfClosing [] attr evs cs
      else if \<not> isWhitespace c then tokenizeFrom SInAttrName [c] attr evs cs
      else tokenizeFrom SBeforeAttrName [] attr evs cs)"
| "tokenizeFrom SInSelfClosing sect attr evs (c # cs) =
     (if c = CHR ''>'' then tokenizeFrom SText [] attr (EvSelfClose # evs) cs
      else if \<not> isWhitespace c then tokenizeFrom SBeforeAttrName [] attr evs (c # cs)
      else tokenizeFrom SInSelfClosing [] attr evs cs)"
| "tokenizeFrom SInAttrName sect attr evs (c # cs) =
     (if c = CHR ''='' \<or> isEndOfTagSection c
      then tokenizeFrom SAfterAttrName [] (rev sect) evs (c # cs)
      else tokenizeFrom SInAttrName (c # sect) attr evs cs)"
| "tokenizeFrom SAfterAttrName sect attr evs (c # cs) =
     (if c = CHR ''='' then tokenizeFrom SBeforeAttrValue [] attr evs cs
      else if c = CHR ''/'' \<or> c = CHR ''>''
      then tokenizeFrom SBeforeAttrName [] attr (EvAttr attr [] # evs) (c # cs)
      else if \<not> isWhitespace c then tokenizeFrom SInAttrName [c] attr (EvAttr attr [] # evs) cs
      else tokenizeFrom SAfterAttrName [] attr evs cs)"
| "tokenizeFrom SBeforeAttrValue sect attr evs (c # cs) =
     (if c = CHR 0x22 then tokenizeFrom SInAttrValueDq [] attr evs cs
      else if c = CHR 0x27 then tokenizeFrom SInAttrValueSq [] attr evs cs
      else if \<not> isWhitespace c then tokenizeFrom SInAttrValueNq [] attr evs (c # cs)
      else tokenizeFrom SBeforeAttrValue [] attr evs cs)"
| "tokenizeFrom SInAttrValueDq sect attr evs (c # cs) =
     (if c = CHR 0x22 then tokenizeFrom SBeforeAttrName [] attr (EvAttr attr (rev sect) # evs) cs
      else tokenizeFrom SInAttrValueDq (c # sect) attr evs cs)"
| "tokenizeFrom SInAttrValueSq sect attr evs (c # cs) =
     (if c = CHR 0x27 then tokenizeFrom SBeforeAttrName [] attr (EvAttr attr (rev sect) # evs) cs
      else tokenizeFrom SInAttrValueSq (c # sect) attr evs cs)"
| "tokenizeFrom SInAttrValueNq sect attr evs (c # cs) =
     (if isWhitespace c \<or> c = CHR ''>''
      then tokenizeFrom SBeforeAttrName [] attr (EvAttr attr (rev sect) # evs) (c # cs)
      else tokenizeFrom SInAttrValueNq (c # sect) attr evs cs)"
| "tokenizeFrom SBeforeClosingTagName sect attr evs (c # cs) =
     (if isWhitespace c then tokenizeFrom SBeforeClosingTagName (c # sect) attr evs cs
      else if c = CHR ''>'' then tokenizeFrom SText (c # sect) attr evs cs
      else if \<not> isEndOfTagSection c then tokenizeFrom SInClosingTagName [c] attr evs cs
      else tokenizeFrom SInSpecialComment [c] attr evs cs)"
| "tokenizeFrom SInClosingTagName sect attr evs (c # cs) =
     (if c = CHR ''>'' \<or> isWhitespace c
      then tokenizeFrom SAfterClosingTagName [] attr (EvClose (rev sect) # evs) (c # cs)
      else tokenizeFrom SInClosingTagName (c # sect) attr evs cs)"
| "tokenizeFrom SAfterClosingTagName sect attr evs (c # cs) =
     (if c = CHR ''>'' then tokenizeFrom SText [] attr evs cs
      else tokenizeFrom SAfterClosingTagName [] attr evs cs)"
| "tokenizeFrom SBeforeDeclaration sect attr evs (c # cs) =
     (if c = CHR ''['' then tokenizeFrom (SCDataSequence 0) [c] attr evs cs
      else if c = CHR ''-'' then tokenizeFrom SBeforeComment [c] attr evs cs
      else tokenizeFrom SInDeclaration [c] attr evs cs)"
| "tokenizeFrom SInDeclaration sect attr evs (c # cs) =
     (if c = CHR ''>'' then tokenizeFrom SText [] attr (EvDirective (CHR ''!'' # rev sect) # evs) cs
      else tokenizeFrom SInDeclaration (c # sect) attr evs cs)"
| "tokenizeFrom SInProcessingInstruction sect attr evs (c # cs) =
     (if c = CHR ''>'' then tokenizeFrom SText [] attr (EvDirective (CHR ''?'' # rev sect) # evs) cs
      else tokenizeFrom SInProcessingInstruction (c # sect) attr evs cs)"
| "tokenizeFrom (SCDataSequence k) sect attr evs (c # cs) =
     (if k < 6 \<and> c = ''CDATA['' ! k
      then (if Suc k = 6 then tokenizeFrom (SInCData 0) [] attr evs cs
            else tokenizeFrom (SCDataSequence (Suc k)) (c # sect) attr evs cs)
      else tokenizeFrom SInDeclaration sect attr evs (c # cs))"
| "tokenizeFrom SBeforeComment sect attr evs (c # cs) =
     (if c = CHR ''-'' then tokenizeFrom (SInComment 2) [] attr evs cs
      else tokenizeFrom SInDeclaration (c # sect) attr evs cs)"
| "tokenizeFrom (SInComment k) sect attr evs (c # cs) =
     (if seqNext ''-->'' k c = 3
      then tokenizeFrom SText [] attr (EvComment (rev (drop 2 sect)) # evs) cs
      else tokenizeFrom (SInComment (seqNext ''-->'' k c)) (c # sect) attr evs cs)"
| "tokenizeFrom (SInCData k) sect attr evs (c # cs) =
     (if seqNext '']]>'' k c = 3
      then tokenizeFrom SText [] attr (EvCData (rev (drop 2 sect)) # evs) cs
      else tokenizeFrom (SInCData (seqNext '']]>'' k c)) (c # sect) attr evs cs)"
| "tokenizeFrom SInSpecialComment sect attr evs (c # cs) =
     (if c = CHR ''>'' then tokenizeFrom SText [] attr (EvComment (rev sect) # evs) cs
      else tokenizeFrom SInSpecialComment (c # sect) attr evs cs)"
| "tokenizeFrom st sect attr evs [] =
     rev (if sect = [] then evs
          else (case st of
              SInComment k \<Rightarrow> EvComment (rev sect) # evs
            | SInCData k \<Rightarrow> EvCData (rev sect) # evs
            | SInTagName \<Rightarrow> evs
            | SBeforeAttrName \<Rightarrow> evs
            | SBeforeAttrValue \<Rightarrow> evs
            | SAfterAttrName \<Rightarrow> evs
            | SInAttrName \<Rightarrow> evs
            | SInAttrValueSq \<Rightarrow> evs
            | SInAttrValueDq \<Rightarrow> evs
            | SInAttrValueNq \<Rightarrow> evs
            | SInClosingTagName \<Rightarrow> evs
            | _ \<Rightarrow> EvText (rev sect) # evs))"
  by pat_completeness auto
termination
  by (relation "measure (\<lambda>(st, sect, attr, evs, cs). 3 * length cs + stateRank st)") auto

text \<open>The events of a whole input.\<close>

definition tokenize :: "string \<Rightarrow> event list" where
  "tokenize s = tokenizeFrom SText [] [] [] s"

subsection \<open>Tree builder\<close>

text \<open>
  The parser keeps the stack of open elements; the tree builder gives every node to the
  innermost open element. An open element is a frame: its name, its attributes and its
  children so far (in reverse). In XML mode no tag is closed by implication, no element is
  void, a self-closing tag is an element without children, a closing tag closes the
  nearest open element of its name and everything opened inside it and is ignored when
  no open element has that name, and the end of the input closes every open element.
  An attribute written twice keeps its first value.
\<close>

type_synonym frame = "string \<times> (string \<times> string) list \<times> node list"

record builder =
  b_pending :: "(string \<times> (string \<times> string) list) option"
  b_stack :: "frame list"
  b_roots :: "node list"

definition addNode :: "node \<Rightarrow> builder \<Rightarrow> builder" where
  "addNode n b =
     (case b_stack b of
        [] \<Rightarrow> b\<lparr>b_roots := n # b_roots b\<rparr>
      | (nm, as, cs) # rest \<Rightarrow> b\<lparr>b_stack := (nm, as, n # cs) # rest\<rparr>)"

text \<open>Character data is appended to a preceding text node, if that is the last node.\<close>

definition mergeText :: "string \<Rightarrow> node list \<Rightarrow> node list" where
  "mergeText d cs = (case cs of Text d0 # cs' \<Rightarrow> Text (d0 @ d) # cs' | _ \<Rightarrow> Text d # cs)"

definition addText :: "string \<Rightarrow> builder \<Rightarrow> builder" where
  "addText d b =
     (case b_stack b of
        [] \<Rightarrow> b\<lparr>b_roots := mergeText d (b_roots b)\<rparr>
      | (nm, as, cs) # rest \<Rightarrow> b\<lparr>b_stack := (nm, as, mergeText d cs) # rest\<rparr>)"

definition closeTop :: "builder \<Rightarrow> builder" where
  "closeTop b =
     (case b_stack b of
        [] \<Rightarrow> b
      | (nm, as, cs) # rest \<Rightarrow> addNode (Element nm as (rev cs)) (b\<lparr>b_stack := rest\<rparr>))"

fun closeCount :: "nat \<Rightarrow> builder \<Rightarrow> builder" where
  "closeCount 0 b = b"
| "closeCount (Suc k) b = closeCount k (closeTop b)"

text \<open>The number of frames to close for a closing tag: up to the nearest of its name.\<close>

fun framesUpTo :: "string \<Rightarrow> frame list \<Rightarrow> nat option" where
  "framesUpTo n [] = None"
| "framesUpTo n (f # fs) =
     (if fst f = n then Some 1 else map_option Suc (framesUpTo n fs))"

definition buildStep :: "builder \<Rightarrow> event \<Rightarrow> builder" where
  "buildStep b ev =
     (case ev of
        EvText d \<Rightarrow> addText d b
      | EvOpenName n \<Rightarrow> b\<lparr>b_pending := Some (n, [])\<rparr>
      | EvAttr k v \<Rightarrow>
          (case b_pending b of
             None \<Rightarrow> b
           | Some (n, as) \<Rightarrow>
               if k \<in> set (map fst as) then b else b\<lparr>b_pending := Some (n, as @ [(k, v)])\<rparr>)
      | EvOpenEnd \<Rightarrow>
          (case b_pending b of
             None \<Rightarrow> b
           | Some (n, as) \<Rightarrow> b\<lparr>b_pending := None, b_stack := (n, as, []) # b_stack b\<rparr>)
      | EvSelfClose \<Rightarrow>
          (case b_pending b of
             None \<Rightarrow> b
           | Some (n, as) \<Rightarrow> addNode (Element n as []) (b\<lparr>b_pending := None\<rparr>))
      | EvClose n \<Rightarrow>
          (case framesUpTo n (b_stack b) of
             None \<Rightarrow> b
           | Some k \<Rightarrow> closeCount k b)
      | EvComment d \<Rightarrow> addNode (Comment d) b
      | EvCData d \<Rightarrow> addNode (CData d) b
      | EvDirective d \<Rightarrow> addNode (Directive d) b)"

definition buildFinish :: "builder \<Rightarrow> node list" where
  "buildFinish b = rev (b_roots (closeCount (length (b_stack b)) b))"

text \<open>\<^verbatim>\<open>cheerio.load(s, {xmlMode: true, decodeEntities: false, ...})\<close>: the document's children.\<close>

definition load :: "string \<Rightarrow> node list" where
  "load s =
     buildFinish (foldl buildStep \<lparr>b_pending = None, b_stack = [], b_roots = []\<rparr> (tokenize s))"

subsection \<open>Traversal, selection and update\<close>

text \<open>
  A node of a loaded document is addressed by its path: the child indices from the top.
  \<open>walkList\<close> lists every node with its path in document order, which is the order in
  which a selection lists its elements.
\<close>

type_synonym path = "nat list"

fun walkNode :: "path \<Rightarrow> node \<Rightarrow> (path \<times> node) list"
  and walkList :: "path \<Rightarrow> nat \<Rightarrow> node list \<Rightarrow> (path \<times> node) list" where
  "walkNode p (Element n as cs) = (p, Element n as cs) # walkList p 0 cs"
| "walkNode p (Text d) = [(p, Text d)]"
| "walkNode p (Comment d) = [(p, Comment d)]"
| "walkNode p (Directive d) = [(p, Directive d)]"
| "walkNode p (CData d) = [(p, CData d)]"
| "walkList p i [] = []"
| "walkList p i (c # cs) = walkNode (p @ [i]) c @ walkList p (Suc i) cs"

fun children :: "node \<Rightarrow> node list" where
  "children (Element n as cs) = cs"
| "children _ = []"

fun isElement :: "node \<Rightarrow> bool" where
  "isElement (Element n as cs) = True"
| "isElement _ = False"

text \<open>The elements below a list of nodes, themselves included, in document order.\<close>

definition elements :: "node list \<Rightarrow> node list" where
  "elements ns = filter isElement (map snd (walkList [] 0 ns))"

text \<open>\<^verbatim>\<open>$(el).find(sel)\<close> ranges over the elements strictly below \<open>el\<close>.\<close>

definition descendants :: "node \<Rightarrow> node list" where
  "descendants el = elements (children el)"

text \<open>The selectors of the source: a tag name, and a tag name with a value of \<^verbatim>\<open>ac:name\<close>.\<close>

fun isTag :: "string \<Rightarrow> node \<Rightarrow> bool" where
  "isTag t (Element n as cs) = (n = t)"
| "isTag t _ = False"

fun hasName :: "string \<Rightarrow> string \<Rightarrow> node \<Rightarrow> bool" where
  "hasName t v (Element n as cs) = (n = t \<and> map_of as ''ac:name'' = Some v)"
| "hasName t v _ = False"

text \<open>\<^verbatim>\<open>.text()\<close> of a node: the character data below it, comments and directives left out.\<close>

fun textContent :: "node \<Rightarrow> string" where
  "textContent (Text d) = d"
| "textContent (Element n as cs) = concat (map textContent cs)"
| "textContent (CData d) = d"
| "textContent (Comment d) = []"
| "textContent (Directive d) = []"

text \<open>\<^verbatim>\<open>sel.first().text()\<close>: the empty string when the selection is empty.\<close>

definition firstText :: "node list \<Rightarrow> string" where
  "firstText sel = (case sel of [] \<Rightarrow> [] | el # _ \<Rightarrow> textContent el)"

text \<open>The node at a path, and \<^verbatim>\<open>.html(content)\<close> at a path: the children are replaced.\<close>

fun nodeAt :: "node list \<Rightarrow> path \<Rightarrow> node option" where
  "nodeAt ns [] = None"
| "nodeAt ns [i] = (if i < length ns then Some (ns ! i) else None)"
| "nodeAt ns (i # j # p) =
     (if i < length ns then nodeAt (children (ns ! i)) (j # p) else None)"

fun withChildren :: "node list \<Rightarrow> node \<Rightarrow> node" where
  "withChildren new (Element n as cs) = Element n as new"
| "withChildren new other = other"

fun setChildren :: "path \<Rightarrow> node list \<Rightarrow> node list \<Rightarrow> node list" where
  "setChildren [] new ns = ns"
| "setChildren [i] new ns = (if i < length ns then ns[i := withChildren new (ns ! i)] else ns)"
| "setChildren (i # j # p) new ns =
     (if i < length ns
      then ns[i := withChildren (setChildren (j # p) new (children (ns ! i))) (ns ! i)]
      else ns)"

section \<open>The checklist manager\<close>

subsection \<open>Data\<close>

record ChecklistItem =
  item_id :: string
  item_text :: string

record ChecklistSection =
  heading :: "string option"
  items :: "ChecklistItem list"

record ChecklistSpec =
  spec_title :: "string option"
  spec_panelTitle :: "string option"
  sections :: "ChecklistSection list"

text \<open>
  \<^verbatim>\<open>ExistingTask\<close> (lines 617 to 621). The status is whatever the page holds: the source
  casts it, so it is a string here.
\<close>

record ExistingTask =
  et_status :: string
  et_taskId :: "string option"
  et_bodyXml :: string

text \<open>
  \<^verbatim>\<open>Map<string, ExistingTask>\<close>: the entries in insertion order. \<^verbatim>\<open>map.set\<close> is
  \<^const>\<open>AList.update\<close> (a present key keeps its place), \<^verbatim>\<open>map.get\<close> is \<^const>\<open>map_of\<close>.
  \<^verbatim>\<open>Set<string>\<close> is the list of its members in insertion order.
\<close>

type_synonym existingMap = "(string \<times> ExistingTask) list"

definition setAdd :: "string \<Rightarrow> string list \<Rightarrow> string list" where
  "setAdd x s = (if x \<in> set s then s else s @ [x])"

definition DEFAULT_PANEL_TITLE :: string where
  "DEFAULT_PANEL_TITLE = ''Checklist (managed)''"

text \<open>\<^verbatim>\<open>a || b\<close> on strings: the empty string is falsy.\<close>

definition orElse :: "string \<Rightarrow> string \<Rightarrow> string" where
  "orElse a b = (if a \<noteq> [] then a else b)"

text \<open>\<^verbatim>\<open>spec.panelTitle || DEFAULT_PANEL_TITLE\<close> (line 184).\<close>

definition panelTitleOf :: "ChecklistSpec \<Rightarrow> string" where
  "panelTitleOf spec = (case spec_panelTitle spec of None \<Rightarrow> DEFAULT_PANEL_TITLE
     | Some t \<Rightarrow> orElse t DEFAULT_PANEL_TITLE)"

subsection \<open>Pure helpers\<close>

definition NL :: string where
  "NL = [CHR 0x0A]"

text \<open>\<^verbatim>\<open>anchorXml\<close> (lines 632 to 636).\<close>

definition anchorXml :: "string \<Rightarrow> string" where
  "anchorXml stableId =
     ''<ac:structured-macro ac:name=\"anchor\"><ac:parameter ac:name=\"\">''
     @ escapeXml stableId @ ''</ac:parameter></ac:structured-macro>''"

text \<open>\<^verbatim>\<open>buildNewTaskBodyXml\<close> (lines 638 to 640).\<close>

definition buildNewTaskBodyXml :: "string \<Rightarrow> string \<Rightarrow> string" where
  "buildNewTaskBodyXml anchorId txt =
     ''<ac:task-body><p>'' @ anchorXml anchorId @ '' '' @ escapeXml txt @ ''</p></ac:task-body>''"

text \<open>
  The selection
  \<^verbatim>\<open>ac:structured-macro[ac:name="anchor"] > ac:parameter[ac:name=""]\<close> (line 651): the
  parameters with the empty name that are children of an anchor macro.
\<close>

definition anchorParams :: "node list \<Rightarrow> node list" where
  "anchorParams doc =
     concat (map (\<lambda>a. filter (hasName ''ac:parameter'' []) (children a))
       (filter (hasName ''ac:structured-macro'' ''anchor'') (elements doc)))"

text \<open>The test \<open>found\<close> of \<^verbatim>\<open>ensureAnchorInBodyXml\<close> (lines 651 to 653).\<close>

definition anchorFound :: "string \<Rightarrow> string \<Rightarrow> bool" where
  "anchorFound bodyXml anchorId =
     list_ex (\<lambda>el. trim (textContent el) = anchorId) (anchorParams (load bodyXml))"

text \<open>\<^verbatim>\<open>ensureAnchorInBodyXml\<close> (lines 643 to 666).\<close>

definition ensureAnchorInBodyXml :: "string \<Rightarrow> string \<Rightarrow> string" where
  "ensureAnchorInBodyXml bodyXml anchorId =
     (if anchorFound bodyXml anchorId then bodyXml
      else (case filter (isTag ''ac:task-body'') (elements (load bodyXml)) of
              body # _ \<Rightarrow> xml [withChildren (load (anchorXml anchorId @ '' '') @ children body) body]
            | [] \<Rightarrow> ''<ac:task-body>'' @ anchorXml anchorId @ '' '' @ bodyXml @ ''</ac:task-body>''))"

subsection \<open>Reading the page\<close>

text \<open>
  The loop of lines 463 to 466 and 494 to 497: the first panel macro, in document order,
  whose first title parameter, trimmed, is the panel title.
\<close>

definition isTargetPanel :: "string \<Rightarrow> node \<Rightarrow> bool" where
  "isTargetPanel panelTitle el =
     (hasName ''ac:structured-macro'' ''panel'' el
      \<and> trim (firstText (filter (hasName ''ac:parameter'' ''title'') (descendants el))) = panelTitle)"

definition findTarget :: "node list \<Rightarrow> string \<Rightarrow> (path \<times> node) option" where
  "findTarget doc panelTitle =
     List.find (\<lambda>pn. isTargetPanel panelTitle (snd pn)) (walkList [] 0 doc)"

text \<open>
  The anchor of a task body (lines 510 to 514): every anchor macro with a non-empty value
  overwrites the one before.
\<close>

definition anchorValue :: "node \<Rightarrow> string" where
  "anchorValue a = trim (firstText (filter (hasName ''ac:parameter'' []) (descendants a)))"

definition bodyAnchors :: "node list \<Rightarrow> node list" where
  "bodyAnchors body =
     concat (map (\<lambda>b. filter (hasName ''ac:structured-macro'' ''anchor'') (descendants b)) body)"

definition anchorIdOf :: "node list \<Rightarrow> string option" where
  "anchorIdOf body =
     foldl (\<lambda>anchorId a. if anchorValue a \<noteq> [] then Some (anchorValue a) else anchorId)
       None (bodyAnchors body)"

text \<open>The facts kept of one task (lines 502 to 507); \<open>taskBody\<close> is \<^verbatim>\<open>$body\<close>.\<close>

definition taskBody :: "node \<Rightarrow> node list" where
  "taskBody task = take 1 (filter (isTag ''ac:task-body'') (descendants task))"

definition taskFacts :: "node \<Rightarrow> ExistingTask" where
  "taskFacts task =
     \<lparr>et_status = orElse (trim (firstText (filter (isTag ''ac:task-status'') (descendants task))))
                  ''incomplete'',
      et_taskId = (let t = trim (firstText (filter (isTag ''ac:task-id'') (descendants task)))
                in if t \<noteq> [] then Some t else None),
      et_bodyXml = xml (taskBody task)\<rparr>"

text \<open>One round of the loop over the tasks (lines 501 to 519).\<close>

definition readTask :: "existingMap \<Rightarrow> node \<Rightarrow> existingMap" where
  "readTask m task =
     (case anchorIdOf (taskBody task) of
        Some anchorId \<Rightarrow> AList.update anchorId (taskFacts task) m
      | None \<Rightarrow> m)"

definition panelTasks :: "node \<Rightarrow> node list" where
  "panelTasks target = filter (isTag ''ac:task'') (descendants target)"

text \<open>\<^verbatim>\<open>readExistingTasks\<close> (lines 485 to 521).\<close>

definition readExistingTasks :: "string \<Rightarrow> string \<Rightarrow> existingMap" where
  "readExistingTasks storageXml panelTitle =
     (case findTarget (load storageXml) panelTitle of
        None \<Rightarrow> []
      | Some (p, target) \<Rightarrow> foldl readTask [] (panelTasks target))"

text \<open>\<^verbatim>\<open>collectAllTaskIdsOnPage\<close> (lines 588 to 601).\<close>

definition collectAllTaskIdsOnPage :: "string \<Rightarrow> string list" where
  "collectAllTaskIdsOnPage storageXml =
     foldl (\<lambda>ids el. if trim (textContent el) \<noteq> [] then setAdd (trim (textContent el)) ids else ids)
       [] (filter (isTag ''ac:task-id'') (elements (load storageXml)))"

subsection \<open>Allocating task identifiers\<close>

text \<open>
  \<^verbatim>\<open>Date.now()\<close> is an input: \<open>now k\<close> is what the \<open>k\<close>-th call of a render pass returns.
  The state of a pass is the set of task identifiers reserved so far and the number of
  calls made.
\<close>

record alloc =
  allTaskIdsOnPage :: "string list"
  clockCalls :: nat

lemma digitChar_inj: "a < 10 \<Longrightarrow> b < 10 \<Longrightarrow> digitChar a = digitChar b \<Longrightarrow> a = b"
proof -
  assume a: "a < 10" and b: "b < 10" and e: "digitChar a = digitChar b"
  have d: "distinct ''0123456789''" by simp
  have "a < length ''0123456789''" "b < length ''0123456789''" using a b by simp_all
  with d e show "a = b" unfolding digitChar_def by (simp only: nth_eq_iff_index_eq)
qed

lemma numString_nonempty: "numString n \<noteq> []"
  by (subst numString.simps) simp

lemma numString_inj: "numString m = numString n \<Longrightarrow> m = n"
proof (induction m arbitrary: n rule: numString.induct)
  case (1 m)
  show ?case
  proof (cases "m < 10")
    case True
    then have m: "numString m = [digitChar m]" by (subst numString.simps) simp
    show ?thesis
    proof (cases "n < 10")
      case True
      then have "numString n = [digitChar n]" by (subst numString.simps) simp
      with m "1.prems" \<open>m < 10\<close> True show ?thesis by (auto dest: digitChar_inj)
    next
      case False
      then have "numString n = numString (n div 10) @ [digitChar (n mod 10)]"
        by (subst numString.simps) simp
      with m "1.prems" numString_nonempty [of "n div 10"] show ?thesis by (cases "numString (n div 10)") auto
    qed
  next
    case False
    then have m: "numString m = numString (m div 10) @ [digitChar (m mod 10)]"
      by (subst numString.simps) simp
    show ?thesis
    proof (cases "n < 10")
      case True
      then have "numString n = [digitChar n]" by (subst numString.simps) simp
      with m "1.prems" numString_nonempty [of "m div 10"] show ?thesis by (cases "numString (m div 10)") auto
    next
      case nf: False
      then have n: "numString n = numString (n div 10) @ [digitChar (n mod 10)]"
        by (subst numString.simps) simp
      from m n "1.prems" have e1: "numString (m div 10) = numString (n div 10)"
        and e2: "digitChar (m mod 10) = digitChar (n mod 10)" by simp_all
      from "1.IH" [OF False e1] have "m div 10 = n div 10" .
      moreover have "m mod 10 = n mod 10" by (rule digitChar_inj [OF _ _ e2]) simp_all
      ultimately show ?thesis by (metis div_mult_mod_eq)
    qed
  qed
qed

lemma finite_numbered: "finite {m. numString m \<in> set ids}"
proof -
  have "inj numString" by (rule injI) (rule numString_inj)
  then have "finite (numString -` set ids)" by (rule finite_vimageI [rotated]) simp
  then show ?thesis by (simp add: vimage_def)
qed

text \<open>
  The loop \<^verbatim>\<open>while (allTaskIdsOnPage.has(String(next))) next++\<close> (line 606). It ends: the
  set is finite and \<^verbatim>\<open>String\<close> is injective.
\<close>

function nextFree :: "string list \<Rightarrow> nat \<Rightarrow> nat" where
  "nextFree ids n = (if numString n \<in> set ids then nextFree ids (Suc n) else n)"
  by pat_completeness auto
termination
proof (relation "measure (\<lambda>(ids, n). card {m. n \<le> m \<and> numString m \<in> set ids})")
  show "wf (measure (\<lambda>(ids, n). card {m. n \<le> m \<and> numString m \<in> set ids}))" by simp
next
  fix ids :: "string list" and n :: nat
  assume taken: "numString n \<in> set ids"
  have fin: "finite {m. n \<le> m \<and> numString m \<in> set ids}"
    by (rule finite_subset [OF _ finite_numbered [of ids]]) auto
  have "n \<in> {m. n \<le> m \<and> numString m \<in> set ids}"
    and "n \<notin> {m. Suc n \<le> m \<and> numString m \<in> set ids}"
    and "{m. Suc n \<le> m \<and> numString m \<in> set ids} \<subseteq> {m. n \<le> m \<and> numString m \<in> set ids}"
    using taken by auto
  then have "{m. Suc n \<le> m \<and> numString m \<in> set ids} \<subset> {m. n \<le> m \<and> numString m \<in> set ids}"
    by blast
  then have "card {m. Suc n \<le> m \<and> numString m \<in> set ids} < card {m. n \<le> m \<and> numString m \<in> set ids}"
    using fin by (rule psubset_card_mono [rotated])
  then show "((ids, Suc n), (ids, n)) \<in> measure (\<lambda>(ids, n). card {m. n \<le> m \<and> numString m \<in> set ids})"
    by simp
qed

declare nextFree.simps [simp del]

text \<open>\<^verbatim>\<open>allocateTaskId\<close> (lines 604 to 610).\<close>

definition allocateTaskId :: "(nat \<Rightarrow> nat) \<Rightarrow> alloc \<Rightarrow> string \<times> alloc" where
  "allocateTaskId now st =
     (let next = nextFree (allTaskIdsOnPage st) (now (clockCalls st));
          newId = numString next
      in (newId, \<lparr>allTaskIdsOnPage = setAdd newId (allTaskIdsOnPage st),
                  clockCalls = Suc (clockCalls st)\<rparr>))"

subsection \<open>Merging and rendering\<close>

text \<open>
  One rendered task: the anchor it is rendered for, the three values the source writes
  into the task's markup, and whether its task identifier was allocated in this pass.
\<close>

record Rendered =
  r_anchorId :: string
  r_taskId :: string
  r_status :: string
  r_bodyXml :: string
  r_fresh :: bool

text \<open>\<^verbatim>\<open>prev?.status === "complete" ? "complete" : "incomplete"\<close> (lines 541 and 571).\<close>

definition mergedStatus :: "ExistingTask option \<Rightarrow> string" where
  "mergedStatus prev =
     (case prev of
        Some e \<Rightarrow> if et_status e = ''complete'' then ''complete'' else ''incomplete''
      | None \<Rightarrow> ''incomplete'')"

text \<open>
  \<^verbatim>\<open>prev?.taskId\<close> when it is truthy (lines 542 and 569): an entry with a task identifier
  that is not the empty string.
\<close>

definition priorTaskId :: "ExistingTask option \<Rightarrow> string option" where
  "priorTaskId prev =
     (case prev of
        Some e \<Rightarrow> (case et_taskId e of Some t \<Rightarrow> if t \<noteq> [] then Some t else None | None \<Rightarrow> None)
      | None \<Rightarrow> None)"

text \<open>\<^verbatim>\<open>prev?.taskId || this.allocateTaskId(allTaskIdsOnPage)\<close>.\<close>

definition mergedTaskId ::
  "(nat \<Rightarrow> nat) \<Rightarrow> ExistingTask option \<Rightarrow> alloc \<Rightarrow> (string \<times> bool) \<times> alloc" where
  "mergedTaskId now prev st =
     (case priorTaskId prev of
        Some t \<Rightarrow> ((t, False), st)
      | None \<Rightarrow> (let (newId, st') = allocateTaskId now st in ((newId, True), st')))"

text \<open>The body of an item (lines 543 to 545): \<^verbatim>\<open>prev?.bodyXml\<close> is falsy when it is empty.\<close>

definition mergedBody :: "ExistingTask option \<Rightarrow> string \<Rightarrow> string \<Rightarrow> string" where
  "mergedBody prev anchorId txt =
     (case prev of
        Some e \<Rightarrow>
          if et_bodyXml e \<noteq> [] then ensureAnchorInBodyXml (et_bodyXml e) anchorId
          else buildNewTaskBodyXml anchorId txt
      | None \<Rightarrow> buildNewTaskBodyXml anchorId txt)"

text \<open>One item of a section (lines 539 to 545).\<close>

definition mergeItem ::
  "existingMap \<Rightarrow> (nat \<Rightarrow> nat) \<Rightarrow> ChecklistItem \<Rightarrow> alloc \<Rightarrow> Rendered \<times> alloc" where
  "mergeItem existingMap now item st =
     (let anchorId = item_id item;
          prev = map_of existingMap anchorId;
          (tid, st') = mergedTaskId now prev st
      in (\<lparr>r_anchorId = anchorId, r_taskId = fst tid, r_status = mergedStatus prev,
           r_bodyXml = mergedBody prev anchorId (item_text item), r_fresh = snd tid\<rparr>, st'))"

text \<open>One removed anchor (lines 568 to 571); its entry is in the map.\<close>

definition mergeRemoved ::
  "(nat \<Rightarrow> nat) \<Rightarrow> string \<times> ExistingTask \<Rightarrow> alloc \<Rightarrow> Rendered \<times> alloc" where
  "mergeRemoved now entry st =
     (let anchorId = fst entry;
          prev = snd entry;
          (tid, st') = mergedTaskId now (Some prev) st
      in (\<lparr>r_anchorId = anchorId, r_taskId = fst tid, r_status = mergedStatus (Some prev),
           r_bodyXml = ensureAnchorInBodyXml (et_bodyXml prev) anchorId, r_fresh = snd tid\<rparr>, st'))"

text \<open>The loops over the items of a section, over the sections and over the removed anchors.\<close>

fun renderItems ::
  "existingMap \<Rightarrow> (nat \<Rightarrow> nat) \<Rightarrow> ChecklistItem list \<Rightarrow> alloc \<Rightarrow> Rendered list \<times> alloc" where
  "renderItems existingMap now [] st = ([], st)"
| "renderItems existingMap now (item # rest) st =
     (let (r, st1) = mergeItem existingMap now item st;
          (rs, st2) = renderItems existingMap now rest st1
      in (r # rs, st2))"

fun renderSections ::
  "existingMap \<Rightarrow> (nat \<Rightarrow> nat) \<Rightarrow> ChecklistSection list \<Rightarrow> alloc \<Rightarrow> Rendered list list \<times> alloc" where
  "renderSections existingMap now [] st = ([], st)"
| "renderSections existingMap now (sec # rest) st =
     (let (rs, st1) = renderItems existingMap now (items sec) st;
          (rss, st2) = renderSections existingMap now rest st1
      in (rs # rss, st2))"

fun renderRemoved ::
  "(nat \<Rightarrow> nat) \<Rightarrow> (string \<times> ExistingTask) list \<Rightarrow> alloc \<Rightarrow> Rendered list \<times> alloc" where
  "renderRemoved now [] st = ([], st)"
| "renderRemoved now (entry # rest) st =
     (let (r, st1) = mergeRemoved now entry st;
          (rs, st2) = renderRemoved now rest st1
      in (r # rs, st2))"

text \<open>The anchors of the map that the specification no longer has (lines 560 to 563).\<close>

definition removedEntries :: "ChecklistSpec \<Rightarrow> existingMap \<Rightarrow> (string \<times> ExistingTask) list" where
  "removedEntries spec existingMap =
     filter (\<lambda>entry. fst entry \<notin> set (map item_id (concat (map items (sections spec)))))
       existingMap"

text \<open>The markup of one task (lines 548 to 552 and 573 to 577).\<close>

definition taskXml :: "Rendered \<Rightarrow> string" where
  "taskXml r =
     ''<ac:task>'' @ NL @ ''  <ac:task-id>'' @ r_taskId r @ ''</ac:task-id>'' @ NL
     @ ''  <ac:task-status>'' @ r_status r @ ''</ac:task-status>'' @ NL
     @ ''  '' @ r_bodyXml r @ NL @ ''</ac:task>''"

definition sectionChunks :: "ChecklistSection \<Rightarrow> Rendered list \<Rightarrow> string list" where
  "sectionChunks sec rs =
     (case heading sec of
        Some h \<Rightarrow> if h \<noteq> [] then [''<h3>'' @ escapeXml h @ ''</h3>''] else []
      | None \<Rightarrow> [])
     @ [''<ac:task-list>''] @ map taskXml rs @ [''</ac:task-list>'']"

definition removedChunks :: "Rendered list \<Rightarrow> string list" where
  "removedChunks rs =
     (if rs \<noteq> []
      then [''<h3>Removed items (kept for reference)</h3>'', ''<ac:task-list>'']
           @ map taskXml rs @ [''</ac:task-list>'']
      else [])"

text \<open>
  A render pass (lines 530 to 581): the tasks of every section, the tasks of the appendix
  of removed items, and the state of the allocator at the end.
\<close>

definition renderPass ::
  "ChecklistSpec \<Rightarrow> existingMap \<Rightarrow> string list \<Rightarrow> bool \<Rightarrow> (nat \<Rightarrow> nat)
     \<Rightarrow> Rendered list list \<times> Rendered list \<times> alloc" where
  "renderPass spec existingMap ids includeRemovedSection now =
     (let (rss, st1) = renderSections existingMap now (sections spec)
                         \<lparr>allTaskIdsOnPage = ids, clockCalls = 0\<rparr>;
          (removed, st2) = (if includeRemovedSection
                            then renderRemoved now (removedEntries spec existingMap) st1
                            else ([], st1))
      in (rss, removed, st2))"

text \<open>\<^verbatim>\<open>buildPanelInnerXml\<close> (lines 524 to 585).\<close>

definition buildPanelInnerXml ::
  "ChecklistSpec \<Rightarrow> existingMap \<Rightarrow> string list \<Rightarrow> bool \<Rightarrow> (nat \<Rightarrow> nat) \<Rightarrow> string" where
  "buildPanelInnerXml spec existingMap ids includeRemovedSection now =
     (let (rss, removed, st) = renderPass spec existingMap ids includeRemovedSection now
      in joinWith NL
           ((case spec_title spec of
               Some t \<Rightarrow> if t \<noteq> [] then [''<h2>'' @ escapeXml t @ ''</h2>''] else []
             | None \<Rightarrow> [])
            @ concat (map2 sectionChunks (sections spec) rss)
            @ removedChunks removed))"

subsection \<open>Replacing the panel and deciding on the write\<close>

text \<open>The markup of a new panel (lines 444 to 450 and 474 to 480), before \<^verbatim>\<open>trim\<close>.\<close>

definition panelXml :: "string \<Rightarrow> string \<Rightarrow> string" where
  "panelXml panelTitle innerXml =
     NL @ ''<ac:structured-macro ac:name=\"panel\">'' @ NL
     @ ''  <ac:parameter ac:name=\"title\">'' @ escapeXml panelTitle @ ''</ac:parameter>'' @ NL
     @ ''  <ac:rich-text-body>'' @ NL
     @ innerXml @ NL
     @ ''  </ac:rich-text-body>'' @ NL
     @ ''</ac:structured-macro>''"

text \<open>
  The first \<^verbatim>\<open>ac:rich-text-body\<close> below the target (line 469), by its path in the
  document.
\<close>

definition firstRichTextBody :: "path \<times> node \<Rightarrow> path option" where
  "firstRichTextBody target =
     map_option fst
       (List.find (\<lambda>pn. isTag ''ac:rich-text-body'' (snd pn))
          (walkList (fst target) 0 (children (snd target))))"

text \<open>\<^verbatim>\<open>setManagedPanel\<close> (lines 454 to 482).\<close>

definition setManagedPanel :: "string \<Rightarrow> string \<Rightarrow> string \<Rightarrow> string" where
  "setManagedPanel storageXml panelTitle innerXml =
     (case findTarget (load storageXml) panelTitle of
        Some target \<Rightarrow>
          (case firstRichTextBody target of
             Some p \<Rightarrow> xml (setChildren p (load innerXml) (load storageXml))
           | None \<Rightarrow> xml (load storageXml))
      | None \<Rightarrow>
          (if storageXml \<noteq> [] then storageXml @ NL else []) @ trim (panelXml panelTitle innerXml) @ NL)"

text \<open>\<^verbatim>\<open>buildManagedPanelStorage\<close> (lines 432 to 451), called with an empty map on create.\<close>

definition buildManagedPanelStorage ::
  "ChecklistSpec \<Rightarrow> existingMap \<Rightarrow> bool \<Rightarrow> string list \<Rightarrow> (nat \<Rightarrow> nat) \<Rightarrow> string" where
  "buildManagedPanelStorage spec existingMap includeRemovedSection prevAllTaskIds now =
     trim (panelXml (panelTitleOf spec)
       (buildPanelInnerXml spec existingMap prevAllTaskIds includeRemovedSection now))"

text \<open>
  The computation of \<^verbatim>\<open>syncById\<close> between reading the page and writing it (lines 184 to
  199): the candidate storage, and whether the page is written.
\<close>

definition newStorageOf :: "string \<Rightarrow> ChecklistSpec \<Rightarrow> bool \<Rightarrow> (nat \<Rightarrow> nat) \<Rightarrow> string" where
  "newStorageOf storage spec includeRemovedSection now =
     setManagedPanel storage (panelTitleOf spec)
       (buildPanelInnerXml spec (readExistingTasks storage (panelTitleOf spec))
          (collectAllTaskIdsOnPage storage) includeRemovedSection now)"

definition syncUpdated :: "string \<Rightarrow> ChecklistSpec \<Rightarrow> bool \<Rightarrow> (nat \<Rightarrow> nat) \<Rightarrow> bool" where
  "syncUpdated storage spec includeRemovedSection now =
     (normalizeXml storage \<noteq> normalizeXml (newStorageOf storage spec includeRemovedSection now))"

subsection \<open>Writing the page\<close>

text \<open>
  The store is outside the repository. A request is a \<^verbatim>\<open>PUT\<close> of a payload or a
  \<^verbatim>\<open>GET\<close> of the page; a server answers a request knowing every request made so far,
  the last being the one it answers. A failed request is the message of the error that
  \<^verbatim>\<open>api\<close> throws.
\<close>

record PutParams =
  p_id :: string
  p_title :: string
  p_type :: "string option"
  p_spaceKey :: "string option"
  p_newStorage :: string
  p_version :: nat

record Payload =
  pl_id :: string
  pl_type :: string
  pl_title :: string
  pl_space :: "string option"
  pl_version :: nat
  pl_storage :: string

record PageGetResponse =
  pg_title :: string
  pg_type :: string
  pg_storage :: "string option"
  pg_version :: "nat option"

datatype request = Put Payload | GetPage string

record server =
  putReply :: "request list \<Rightarrow> string option"
  getReply :: "request list \<Rightarrow> string + PageGetResponse"

text \<open>The payload of lines 360 to 367.\<close>

definition payloadOf :: "PutParams \<Rightarrow> Payload" where
  "payloadOf p =
     \<lparr>pl_id = p_id p,
      pl_type = (case p_type p of Some t \<Rightarrow> orElse t ''page'' | None \<Rightarrow> ''page''),
      pl_title = p_title p,
      pl_space = (case p_spaceKey p of Some k \<Rightarrow> if k \<noteq> [] then Some k else None | None \<Rightarrow> None),
      pl_version = p_version p + 1,
      pl_storage = p_newStorage p\<rparr>"

text \<open>
  The test \<^verbatim>\<open>/HTTP 409|version conflict/i\<close> on the message (line 378): one of the two
  texts occurs in it, letters compared without case.
\<close>

definition lowerChar :: "char \<Rightarrow> char" where
  "lowerChar c = (if 65 \<le> (of_char c :: nat) \<and> (of_char c :: nat) \<le> 90
     then char_of ((of_char c :: nat) + 32) else c)"

fun startsWithCI :: "string \<Rightarrow> string \<Rightarrow> bool" where
  "startsWithCI [] s = True"
| "startsWithCI (p # ps) [] = False"
| "startsWithCI (p # ps) (c # cs) = (lowerChar p = lowerChar c \<and> startsWithCI ps cs)"

fun containsCI :: "string \<Rightarrow> string \<Rightarrow> bool" where
  "containsCI pat [] = startsWithCI pat []"
| "containsCI pat (c # cs) = (startsWithCI pat (c # cs) \<or> containsCI pat cs)"

definition isConflict :: "string \<Rightarrow> bool" where
  "isConflict msg = (containsCI ''HTTP 409'' msg \<or> containsCI ''version conflict'' msg)"

text \<open>
  \<^verbatim>\<open>putPageWithRetry\<close> (lines 355 to 390). The result is the error thrown, if any, and
  the requests made so far.
\<close>

fun putPageWithRetry ::
  "server \<Rightarrow> PutParams \<Rightarrow> bool \<Rightarrow> nat \<Rightarrow> request list \<Rightarrow> string option \<times> request list" where
  "putPageWithRetry srv p dryRun 0 h =
     (if dryRun then (None, h)
      else (putReply srv (h @ [Put (payloadOf p)]), h @ [Put (payloadOf p)]))"
| "putPageWithRetry srv p dryRun (Suc retries) h =
     (if dryRun then (None, h)
      else (case putReply srv (h @ [Put (payloadOf p)]) of
              None \<Rightarrow> (None, h @ [Put (payloadOf p)])
            | Some e \<Rightarrow>
                if isConflict e
                then (case getReply srv (h @ [Put (payloadOf p), GetPage (p_id p)]) of
                        Inl e' \<Rightarrow> (Some e', h @ [Put (payloadOf p), GetPage (p_id p)])
                      | Inr latest \<Rightarrow>
                          putPageWithRetry srv
                            (p\<lparr>p_version := (case pg_version latest of Some n \<Rightarrow> n
                                              | None \<Rightarrow> p_version p)\<rparr>)
                            dryRun retries (h @ [Put (payloadOf p), GetPage (p_id p)]))
                else (Some e, h @ [Put (payloadOf p)])))"

text \<open>The call of line 202: \<^verbatim>\<open>retries\<close> has its default, two.\<close>

definition putPage :: "server \<Rightarrow> PutParams \<Rightarrow> bool \<Rightarrow> request list \<Rightarrow> string option \<times> request list" where
  "putPage srv p dryRun h = putPageWithRetry srv p dryRun 2 h"

section \<open>Observations\<close>

text \<open>
  What the properties below observe of a render pass, of the index, of the requests of
  the writer and of a document tree.
\<close>

text \<open>The task identifiers that a list of rendered tasks had allocated, in order.\<close>

definition freshIds :: "Rendered list \<Rightarrow> string list" where
  "freshIds rs = map r_taskId (filter r_fresh rs)"

text \<open>What one step does to the set of reserved identifiers.\<close>

definition stepOk :: "alloc \<Rightarrow> Rendered \<Rightarrow> alloc \<Rightarrow> bool" where
  "stepOk st r st' =
     (if r_fresh r
      then r_taskId r \<notin> set (allTaskIdsOnPage st) \<and> r_taskId r \<noteq> []
           \<and> set (allTaskIdsOnPage st') = insert (r_taskId r) (set (allTaskIdsOnPage st))
      else st' = st)"

text \<open>The invariant of a run of steps.\<close>

definition runOk :: "alloc \<Rightarrow> Rendered list \<Rightarrow> alloc \<Rightarrow> bool" where
  "runOk st rs st' =
     (distinct (freshIds rs) \<and> [] \<notin> set (freshIds rs)
      \<and> set (freshIds rs) \<inter> set (allTaskIdsOnPage st) = {}
      \<and> set (allTaskIdsOnPage st') = set (allTaskIdsOnPage st) \<union> set (freshIds rs))"

text \<open>The item identifiers of a specification, in order.\<close>

definition specIds :: "ChecklistSpec \<Rightarrow> string list" where
  "specIds spec = map item_id (concat (map items (sections spec)))"

text \<open>
  The task identifier and status that the rendered sections give to an anchor: one pair
  for each task rendered for it.
\<close>

definition assigned :: "Rendered list list \<Rightarrow> string \<Rightarrow> (string \<times> string) list" where
  "assigned rss k = map (\<lambda>r. (r_taskId r, r_status r)) (filter (\<lambda>r. r_anchorId r = k) (concat rss))"

text \<open>What the index fixes of a rendered task.\<close>

definition fixedBy :: "existingMap \<Rightarrow> Rendered \<Rightarrow> bool" where
  "fixedBy existingMap r =
     (r_status r = mergedStatus (map_of existingMap (r_anchorId r))
      \<and> (\<forall>t. priorTaskId (map_of existingMap (r_anchorId r)) = Some t \<longrightarrow> r_taskId r = t))"

text \<open>The tasks that \<^const>\<open>readExistingTasks\<close> enumerates: those of the selected panel.\<close>

definition tasksOfPanel :: "string \<Rightarrow> string \<Rightarrow> node list" where
  "tasksOfPanel storageXml panelTitle =
     (case findTarget (load storageXml) panelTitle of
        None \<Rightarrow> []
      | Some (p, target) \<Rightarrow> panelTasks target)"

text \<open>The markers of a task body: the values of its anchor macros that are not empty.\<close>

definition markers :: "node list \<Rightarrow> string list" where
  "markers body = filter (\<lambda>v. v \<noteq> []) (map anchorValue (bodyAnchors body))"

text \<open>The payloads of the writes among a list of requests.\<close>

fun puts :: "request list \<Rightarrow> Payload list" where
  "puts [] = []"
| "puts (Put pl # rs) = pl # puts rs"
| "puts (GetPage i # rs) = puts rs"

text \<open>Two payloads that differ in the version number at most.\<close>

definition sameContent :: "Payload \<Rightarrow> Payload \<Rightarrow> bool" where
  "sameContent a b = (a\<lparr>pl_version := 0\<rparr> = b\<lparr>pl_version := 0\<rparr>)"

text \<open>
  What a run of the writer leaves: the requests it added to the history \<open>h\<close>, at most
  \<open>n\<close> writes among them, each with the content of \<open>pl\<close>; and how the result \<open>res\<close>
  relates to the reply to the last request.
\<close>

definition runShape :: "server \<Rightarrow> Payload \<Rightarrow> nat \<Rightarrow> request list \<Rightarrow> string option \<times> request list \<Rightarrow> bool" where
  "runShape srv pl n h out =
     (let new = drop (length h) (snd out) in
        snd out = h @ new \<and> new \<noteq> []
        \<and> 1 \<le> length (puts new) \<and> length (puts new) \<le> n
        \<and> list_all (sameContent pl) (puts new)
        \<and> (case last new of
              Put sent \<Rightarrow> fst out = putReply srv (snd out)
                \<and> (case fst out of None \<Rightarrow> True
                     | Some e \<Rightarrow> isConflict e \<longrightarrow> length (puts new) = n)
            | GetPage i \<Rightarrow> i = pl_id pl \<and> (case fst out of None \<Rightarrow> False
                     | Some e \<Rightarrow> getReply srv (snd out) = Inl e)))"

text \<open>
  What a node is by itself: the node without its children, and the number of its
  children.
\<close>

definition shallow :: "node \<Rightarrow> node \<times> nat" where
  "shallow n = (withChildren [] n, length (children n))"

text \<open>
  A run of the writer, request by request: \<open>retryRun srv n h new res\<close> holds when the
  requests \<open>new\<close>, made after the history \<open>h\<close> with \<open>n\<close> retries left, and the result
  \<open>res\<close> are those of a writer that sends a \<^verbatim>\<open>PUT\<close>, returns its reply unless it is a
  version conflict and a retry is left, and in that case fetches the page, returns an
  error of the fetch, and otherwise sends the same payload again with the version after
  the fetched one.
\<close>

fun retryRun :: "server \<Rightarrow> nat \<Rightarrow> request list \<Rightarrow> request list \<Rightarrow> string option \<Rightarrow> bool" where
  "retryRun srv n h [Put pl] res =
     (res = putReply srv (h @ [Put pl])
      \<and> (case res of None \<Rightarrow> True | Some e \<Rightarrow> isConflict e \<longrightarrow> n = 0))"
| "retryRun srv n h [Put pl, GetPage i] res =
     (0 < n
      \<and> (case putReply srv (h @ [Put pl]) of None \<Rightarrow> False | Some e \<Rightarrow> isConflict e)
      \<and> i = pl_id pl
      \<and> (case res of None \<Rightarrow> False | Some e' \<Rightarrow> getReply srv (h @ [Put pl, GetPage i]) = Inl e'))"
| "retryRun srv n h (Put pl # GetPage i # r # rs) res =
     (0 < n
      \<and> (case putReply srv (h @ [Put pl]) of None \<Rightarrow> False | Some e \<Rightarrow> isConflict e)
      \<and> i = pl_id pl
      \<and> (case getReply srv (h @ [Put pl, GetPage i]) of
            Inl e' \<Rightarrow> False
          | Inr latest \<Rightarrow>
              r = Put (pl\<lparr>pl_version := (case pg_version latest of Some v \<Rightarrow> v + 1
                                          | None \<Rightarrow> pl_version pl)\<rparr>))
      \<and> retryRun srv (n - 1) (h @ [Put pl, GetPage i]) (r # rs) res)"
| "retryRun srv n h new res = False"

section \<open>Example pages and specifications\<close>

text \<open>
  A page as a sync leaves it: one panel titled \<open>P\<close> with one task, marked complete by a
  user who also added a mention to its body.
\<close>

definition syncedPage :: string where
  "syncedPage = ''<ac:structured-macro ac:name=\"panel\"><ac:parameter ac:name=\"title\">P</ac:parameter><ac:rich-text-body><ac:task-list><ac:task><ac:task-id>7</ac:task-id><ac:task-status>complete</ac:task-status><ac:task-body><p><ac:structured-macro ac:name=\"anchor\"><ac:parameter ac:name=\"\">x</ac:parameter></ac:structured-macro> foo @bob</p></ac:task-body></ac:task></ac:task-list></ac:rich-text-body></ac:structured-macro>''"

definition syncedEntry :: ExistingTask where
  "syncedEntry = \<lparr>et_status = ''complete'', et_taskId = Some ''7'', et_bodyXml = ''<ac:task-body><p><ac:structured-macro ac:name=\"anchor\"><ac:parameter ac:name=\"\">x</ac:parameter></ac:structured-macro> foo @bob</p></ac:task-body>''\<rparr>"

text \<open>A page with a task list of its own, outside any managed panel.\<close>

definition pageWithForeignTask :: string where
  "pageWithForeignTask = ''<ac:task-list><ac:task><ac:task-id> 41 </ac:task-id><ac:task-body>other</ac:task-body></ac:task></ac:task-list>''"

text \<open>A specification of one section with two items.\<close>

definition specAB :: ChecklistSpec where
  "specAB = \<lparr>spec_title = None, spec_panelTitle = None,
     sections = [\<lparr>heading = None, items = [\<lparr>item_id = ''a'', item_text = ''A''\<rparr>, \<lparr>item_id = ''b'', item_text = ''B''\<rparr>]\<rparr>]\<rparr>"

text \<open>The items of \<^const>\<open>specAB\<close> in the other order.\<close>

definition specBA :: ChecklistSpec where
  "specBA = \<lparr>spec_title = None, spec_panelTitle = None,
     sections = [\<lparr>heading = None, items = [\<lparr>item_id = ''b'', item_text = ''B''\<rparr>, \<lparr>item_id = ''a'', item_text = ''A''\<rparr>]\<rparr>]\<rparr>"

text \<open>An index with one entry, for the anchor \<open>a\<close>.\<close>

definition indexA :: existingMap where
  "indexA = [(''a'', \<lparr>et_status = ''complete'', et_taskId = Some ''7'', et_bodyXml = ''<ac:task-body>A</ac:task-body>''\<rparr>)]"

text \<open>Example trees: an anchor macro, a panel, a task with two markers and its page.\<close>

definition anchorNode :: "string \<Rightarrow> node" where
  "anchorNode v = Element ''ac:structured-macro'' [(''ac:name'', ''anchor'')]
     [Element ''ac:parameter'' [(''ac:name'', [])] [Text v]]"

definition panelNode :: "string \<Rightarrow> node list \<Rightarrow> node" where
  "panelNode t content = Element ''ac:structured-macro'' [(''ac:name'', ''panel'')]
     [Element ''ac:parameter'' [(''ac:name'', ''title'')] [Text t],
      Element ''ac:rich-text-body'' [] content]"

definition twoMarkerTask :: node where
  "twoMarkerTask = Element ''ac:task'' []
     [Element ''ac:task-id'' [] [Text ''7''],
      Element ''ac:task-status'' [] [Text ''complete''],
      Element ''ac:task-body'' []
        [Element ''p'' [] [anchorNode ''x'', Text '' foo '', anchorNode ''y'', Text '' bar'']]]"

definition twoMarkerPage :: string where
  "twoMarkerPage = xml [panelNode ''P'' [Element ''ac:task-list'' [] [twoMarkerTask]]]"

text \<open>
  A task without a marker, once beside a task with the marker \<open>x\<close> and once inside the
  body of that task (as a nested task list).
\<close>

definition orphanTask :: node where
  "orphanTask = Element ''ac:task'' []
     [Element ''ac:task-id'' [] [Text ''8''],
      Element ''ac:task-status'' [] [Text ''incomplete''],
      Element ''ac:task-body'' [] [Text ''added by hand'']]"

definition markedTask :: "node list \<Rightarrow> node" where
  "markedTask nested = Element ''ac:task'' []
     [Element ''ac:task-id'' [] [Text ''7''],
      Element ''ac:task-status'' [] [Text ''complete''],
      Element ''ac:task-body'' [] ([anchorNode ''x'', Text '' foo''] @ nested)]"

definition orphanBesidePage :: string where
  "orphanBesidePage = xml [panelNode ''P'' [Element ''ac:task-list'' [] [markedTask [], orphanTask]]]"

definition orphanNestedPage :: string where
  "orphanNestedPage =
     xml [panelNode ''P'' [Element ''ac:task-list'' [] [markedTask [Element ''ac:task-list'' [] [orphanTask]]]]]"

text \<open>
  A task with the marker \<open>x\<close> whose body holds a nested task list with a task marked
  \<open>y\<close>, and the page with that task in the panel \<open>P\<close>.
\<close>

definition innerMarkedTask :: node where
  "innerMarkedTask = Element ''ac:task'' []
     [Element ''ac:task-id'' [] [Text ''8''],
      Element ''ac:task-status'' [] [Text ''incomplete''],
      Element ''ac:task-body'' [] [anchorNode ''y'', Text '' bar'']]"

definition outerMarkedTask :: node where
  "outerMarkedTask = Element ''ac:task'' []
     [Element ''ac:task-id'' [] [Text ''7''],
      Element ''ac:task-status'' [] [Text ''complete''],
      Element ''ac:task-body'' []
        [anchorNode ''x'', Text '' foo'', Element ''ac:task-list'' [] [innerMarkedTask]]]"

definition nestedMarkersPage :: string where
  "nestedMarkersPage = xml [panelNode ''P'' [Element ''ac:task-list'' [] [outerMarkedTask]]]"

text \<open>A specification with the single item \<open>x\<close> for the panel \<open>P\<close>.\<close>

definition specX :: ChecklistSpec where
  "specX = \<lparr>spec_title = None, spec_panelTitle = Some ''P'',
     sections = [\<lparr>heading = None, items = [\<lparr>item_id = ''x'', item_text = ''foo''\<rparr>]\<rparr>]\<rparr>"

text \<open>
  A specification for the panel \<open>P\<close> with the item \<open>x\<close>, its display text revised,
  and a new item \<open>y\<close> whose display text has a character to escape.
\<close>

definition specXY :: ChecklistSpec where
  "specXY = \<lparr>spec_title = None, spec_panelTitle = Some ''P'',
     sections = [\<lparr>heading = None, items = [\<lparr>item_id = ''x'', item_text = ''foo revised''\<rparr>,
       \<lparr>item_id = ''y'', item_text = ''a < b''\<rparr>]\<rparr>]\<rparr>"

text \<open>A server that rejects every write as stale, and one that fails otherwise.\<close>

definition staleServer :: server where
  "staleServer = \<lparr>putReply = (\<lambda>h. Some ''HTTP 409 Conflict for PUT''),
     getReply = (\<lambda>h. Inr \<lparr>pg_title = ''changed'', pg_type = ''page'', pg_storage = Some ''other'',
                           pg_version = Some (5 + length h)\<rparr>)\<rparr>"

definition brokenServer :: server where
  "brokenServer = \<lparr>putReply = (\<lambda>h. Some ''HTTP 500 Internal Server Error for PUT''),
     getReply = (\<lambda>h. Inl ''HTTP 500'')\<rparr>"

text \<open>A server that rejects the first write as stale and fails on every later one.\<close>

definition flakyServer :: server where
  "flakyServer = \<lparr>putReply = (\<lambda>h. if length h = 1 then Some ''HTTP 409 Conflict for PUT''
                                  else Some ''HTTP 500 Internal Server Error for PUT''),
     getReply = (\<lambda>h. Inr \<lparr>pg_title = ''changed'', pg_type = ''page'', pg_storage = Some ''other'',
                           pg_version = Some 7\<rparr>)\<rparr>"

definition someParams :: PutParams where
  "someParams = \<lparr>p_id = ''1'', p_title = ''T'', p_type = Some ''page'', p_spaceKey = Some ''S'',
     p_newStorage = ''<p>new</p>'', p_version = 3\<rparr>"

text \<open>A panel with the title \<open>P\<close> and no rich-text-body.\<close>

definition bodylessPanelPage :: string where
  "bodylessPanelPage = xml [Element ''ac:structured-macro'' [(''ac:name'', ''panel'')]
     [Element ''ac:parameter'' [(''ac:name'', ''title'')] [Text ''P'']]]"

text \<open>
  A panel without a title whose body holds a paragraph and the panel with the title
  \<open>P\<close>.
\<close>

definition enclosedPanelPage :: string where
  "enclosedPanelPage = xml [Element ''ac:structured-macro'' [(''ac:name'', ''panel'')]
     [Element ''ac:rich-text-body'' []
        [Element ''p'' [] [Text ''keep''], panelNode ''P'' [Element ''p'' [] [Text ''old'']]]]]"

text \<open>A paragraph followed by a panel with the title \<open>P\<close> and old content.\<close>

definition pageWithPanel :: string where
  "pageWithPanel = xml [Element ''p'' [(''class'', ''intro'')] [Text ''before''],
     panelNode ''P'' [Element ''p'' [] [Text ''old'']]]"

text \<open>
  The page that a first sync of \<^const>\<open>specX\<close> writes for an empty page (the panel is
  appended), and the page that the second sync writes for that one.
\<close>

definition firstSynced :: string where
  "firstSynced = newStorageOf [] specX False (\<lambda>k. 41)"

definition secondSynced :: string where
  "secondSynced = newStorageOf firstSynced specX False (\<lambda>k. 42)"

text \<open>A specification whose item identifier has a character that \<^const>\<open>escapeXml\<close> replaces.\<close>

definition specAmp :: ChecklistSpec where
  "specAmp = \<lparr>spec_title = None, spec_panelTitle = Some ''P'',
     sections = [\<lparr>heading = None, items = [\<lparr>item_id = ''a&b'', item_text = ''t''\<rparr>]\<rparr>]\<rparr>"

text \<open>The index that the next sync reads from the page synced for \<^const>\<open>specAmp\<close>.\<close>

definition indexAmp :: existingMap where
  "indexAmp = [(''a&amp;b'', \<lparr>et_status = ''incomplete'', et_taskId = Some ''41'',
     et_bodyXml = buildNewTaskBodyXml ''a&b'' ''t''\<rparr>)]"

section \<open>Properties of the merge and render engine\<close>

subsection \<open>Status\<close>

lemma mergeItem_anchor_status:
  "r_anchorId (fst (mergeItem existingMap now item st)) = item_id item"
  "r_status (fst (mergeItem existingMap now item st)) = mergedStatus (map_of existingMap (item_id item))"
  by (simp_all add: mergeItem_def Let_def split: prod.splits)

lemma renderItems_status:
  "map (\<lambda>r. (r_anchorId r, r_status r)) (fst (renderItems existingMap now its st)) =
   map (\<lambda>it. (item_id it, mergedStatus (map_of existingMap (item_id it)))) its"
proof (induction its arbitrary: st)
  case Nil
  show ?case by simp
next
  case (Cons it its)
  obtain r st1 where m: "mergeItem existingMap now it st = (r, st1)" by (cases "mergeItem existingMap now it st")
  obtain rs st2 where rs: "renderItems existingMap now its st1 = (rs, st2)" by (cases "renderItems existingMap now its st1")
  from mergeItem_anchor_status [of existingMap now it st] m
  have "r_anchorId r = item_id it" "r_status r = mergedStatus (map_of existingMap (item_id it))" by simp_all
  moreover from Cons.IH [of st1] rs
  have "map (\<lambda>r. (r_anchorId r, r_status r)) rs = map (\<lambda>it. (item_id it, mergedStatus (map_of existingMap (item_id it)))) its" by simp
  ultimately show ?case using m rs by simp
qed

lemma renderSections_status:
  "map (map (\<lambda>r. (r_anchorId r, r_status r))) (fst (renderSections existingMap now secs st)) =
   map (\<lambda>sec. map (\<lambda>it. (item_id it, mergedStatus (map_of existingMap (item_id it)))) (items sec)) secs"
proof (induction secs arbitrary: st)
  case Nil
  show ?case by simp
next
  case (Cons sec secs)
  obtain rs st1 where a: "renderItems existingMap now (items sec) st = (rs, st1)" by (cases "renderItems existingMap now (items sec) st")
  obtain rss st2 where b: "renderSections existingMap now secs st1 = (rss, st2)" by (cases "renderSections existingMap now secs st1")
  from renderItems_status [of existingMap now "items sec" st] a
  have "map (\<lambda>r. (r_anchorId r, r_status r)) rs = map (\<lambda>it. (item_id it, mergedStatus (map_of existingMap (item_id it)))) (items sec)" by simp
  moreover from Cons.IH [of st1] b
  have "map (map (\<lambda>r. (r_anchorId r, r_status r))) rss =
   map (\<lambda>sec. map (\<lambda>it. (item_id it, mergedStatus (map_of existingMap (item_id it)))) (items sec)) secs" by simp
  ultimately show ?case using a b by simp
qed

lemma mergedStatus_iff:
  "mergedStatus prev = (if (\<exists>e. prev = Some e \<and> et_status e = ''complete'') then ''complete'' else ''incomplete'')"
  by (cases prev) (simp_all add: mergedStatus_def)

lemma renderPass_main:
  "fst (renderPass spec existingMap ids incl now) =
     fst (renderSections existingMap now (sections spec) \<lparr>allTaskIdsOnPage = ids, clockCalls = 0\<rparr>)"
  by (simp add: renderPass_def Let_def split: prod.splits)

subsection \<open>Bodies\<close>

lemma xmlNode_element_nonempty: "isElement n \<Longrightarrow> xmlNode n \<noteq> []"
  by (cases n) simp_all

lemma isTag_isElement: "isTag t n \<Longrightarrow> isElement n"
  by (cases n) simp_all

lemma taskBody_xml_nonempty: "taskBody task \<noteq> [] \<Longrightarrow> xml (taskBody task) \<noteq> []"
proof -
  assume ne: "taskBody task \<noteq> []"
  then obtain b bs where b: "taskBody task = b # bs" by (cases "taskBody task") auto
  then have "b \<in> set (taskBody task)" by simp
  then have "b \<in> set (filter (isTag ''ac:task-body'') (descendants task))"
    unfolding taskBody_def by (rule in_set_takeD)
  then have "isElement b" by (auto dest: isTag_isElement)
  then have "xmlNode b \<noteq> []" by (rule xmlNode_element_nonempty)
  with b show ?thesis by (simp add: xml_def)
qed

lemma anchorIdOf_Nil: "anchorIdOf [] = None"
  by (simp add: anchorIdOf_def bodyAnchors_def)

lemma readTask_bodies:
  assumes "\<And>k e. map_of m k = Some e \<Longrightarrow> et_bodyXml e \<noteq> []"
    and "map_of (readTask m task) k = Some e"
  shows "et_bodyXml e \<noteq> []"
proof (cases "anchorIdOf (taskBody task)")
  case None
  with assms show ?thesis by (simp add: readTask_def)
next
  case (Some a)
  then have "taskBody task \<noteq> []" using anchorIdOf_Nil by auto
  then have ne: "et_bodyXml (taskFacts task) \<noteq> []"
    by (simp add: taskFacts_def taskBody_xml_nonempty)
  from Some assms(2) have "((map_of m)(a \<mapsto> taskFacts task)) k = Some e"
    by (simp add: readTask_def update_conv')
  with ne assms(1) show ?thesis by (cases "k = a") auto
qed

lemma foldl_readTask_bodies:
  assumes "\<And>k e. map_of m k = Some e \<Longrightarrow> et_bodyXml e \<noteq> []"
    and "map_of (foldl readTask m tasks) k = Some e"
  shows "et_bodyXml e \<noteq> []"
  using assms
proof (induction tasks arbitrary: m)
  case Nil
  then show ?case by simp
next
  case (Cons t ts)
  have "\<And>k e. map_of (readTask m t) k = Some e \<Longrightarrow> et_bodyXml e \<noteq> []"
    using Cons.prems(1) by (rule readTask_bodies)
  with Cons.IH [of "readTask m t"] Cons.prems(2) show ?case by simp
qed

lemma readExistingTasks_bodies:
  "map_of (readExistingTasks storageXml panelTitle) k = Some e \<Longrightarrow> et_bodyXml e \<noteq> []"
proof -
  assume a: "map_of (readExistingTasks storageXml panelTitle) k = Some e"
  show ?thesis
  proof (cases "findTarget (load storageXml) panelTitle")
    case None
    with a show ?thesis by (simp add: readExistingTasks_def)
  next
    case (Some t)
    with a have "map_of (foldl readTask [] (panelTasks (snd t))) k = Some e"
      by (simp add: readExistingTasks_def split: prod.splits)
    then show ?thesis by (rule foldl_readTask_bodies [rotated]) simp
  qed
qed

lemma mergeItem_body:
  "r_bodyXml (fst (mergeItem existingMap now item st)) =
     mergedBody (map_of existingMap (item_id item)) (item_id item) (item_text item)"
  by (simp add: mergeItem_def Let_def split: prod.splits)

subsection \<open>Allocation of task identifiers\<close>

lemma nextFree_free: "numString (nextFree ids n) \<notin> set ids"
proof (induction ids n rule: nextFree.induct)
  case (1 ids n)
  show ?case
  proof (cases "numString n \<in> set ids")
    case True
    with "1.IH" show ?thesis by (subst nextFree.simps) simp
  next
    case False
    then show ?thesis by (subst nextFree.simps) simp
  qed
qed

lemma set_setAdd: "set (setAdd x s) = insert x (set s)"
  by (auto simp: setAdd_def)

lemma allocateTaskId_new:
  assumes "allocateTaskId now st = (newId, st')"
  shows "newId \<notin> set (allTaskIdsOnPage st)"
    and "set (allTaskIdsOnPage st') = insert newId (set (allTaskIdsOnPage st))"
  using assms nextFree_free [of "allTaskIdsOnPage st" "now (clockCalls st)"]
  by (auto simp: allocateTaskId_def Let_def set_setAdd)

lemma allocateTaskId_nonempty: "allocateTaskId now st = (newId, st') \<Longrightarrow> newId \<noteq> []"
  by (auto simp: allocateTaskId_def Let_def numString_nonempty)

lemma mergedTaskId_cases:
  assumes "mergedTaskId now prev st = ((t, fresh), st')"
  shows "fresh = (priorTaskId prev = None)"
    and "\<not> fresh \<Longrightarrow> st' = st \<and> priorTaskId prev = Some t"
    and "fresh \<Longrightarrow> t \<notin> set (allTaskIdsOnPage st) \<and> t \<noteq> []
            \<and> set (allTaskIdsOnPage st') = insert t (set (allTaskIdsOnPage st))"
  using assms
  by (auto simp: mergedTaskId_def Let_def split: option.splits prod.splits
      dest: allocateTaskId_new allocateTaskId_nonempty)

lemma mergeItem_stepOk: "mergeItem existingMap now item st = (r, st') \<Longrightarrow> stepOk st r st'"
proof -
  assume a: "mergeItem existingMap now item st = (r, st')"
  obtain t fresh st1 where m: "mergedTaskId now (map_of existingMap (item_id item)) st = ((t, fresh), st1)"
    by (metis prod.exhaust)
  with a have "r_taskId r = t" "r_fresh r = fresh" "st' = st1"
    by (auto simp: mergeItem_def Let_def)
  with mergedTaskId_cases(2,3) [OF m] show ?thesis by (auto simp: stepOk_def)
qed

lemma mergeRemoved_stepOk: "mergeRemoved now entry st = (r, st') \<Longrightarrow> stepOk st r st'"
proof -
  assume a: "mergeRemoved now entry st = (r, st')"
  obtain t fresh st1 where m: "mergedTaskId now (Some (snd entry)) st = ((t, fresh), st1)"
    by (metis prod.exhaust)
  with a have "r_taskId r = t" "r_fresh r = fresh" "st' = st1"
    by (auto simp: mergeRemoved_def Let_def)
  with mergedTaskId_cases(2,3) [OF m] show ?thesis by (auto simp: stepOk_def)
qed

lemma runOk_Nil: "runOk st [] st"
  by (simp add: runOk_def freshIds_def)

lemma runOk_Cons: "stepOk st r st1 \<Longrightarrow> runOk st1 rs st2 \<Longrightarrow> runOk st (r # rs) st2"
  by (cases "r_fresh r") (auto simp: runOk_def stepOk_def freshIds_def)

lemma runOk_append: "runOk st rs st1 \<Longrightarrow> runOk st1 rs' st2 \<Longrightarrow> runOk st (rs @ rs') st2"
  by (auto simp: runOk_def freshIds_def)

lemma renderItems_runOk: "renderItems existingMap now its st = (rs, st') \<Longrightarrow> runOk st rs st'"
proof (induction its arbitrary: st rs st')
  case Nil
  then show ?case by (simp add: runOk_Nil)
next
  case (Cons it its)
  obtain r st1 where m: "mergeItem existingMap now it st = (r, st1)" by (metis prod.exhaust)
  obtain rs1 st2 where rs: "renderItems existingMap now its st1 = (rs1, st2)" by (metis prod.exhaust)
  from Cons.prems m rs have e: "rs = r # rs1" "st' = st2" by simp_all
  from mergeItem_stepOk [OF m] Cons.IH [OF rs] show ?case unfolding e by (rule runOk_Cons)
qed

lemma renderSections_runOk:
  "renderSections existingMap now secs st = (rss, st') \<Longrightarrow> runOk st (concat rss) st'"
proof (induction secs arbitrary: st rss st')
  case Nil
  then show ?case by (simp add: runOk_Nil)
next
  case (Cons sec secs)
  obtain rs st1 where a: "renderItems existingMap now (items sec) st = (rs, st1)" by (metis prod.exhaust)
  obtain rss1 st2 where b: "renderSections existingMap now secs st1 = (rss1, st2)" by (metis prod.exhaust)
  from Cons.prems a b have e: "rss = rs # rss1" "st' = st2" by simp_all
  from renderItems_runOk [OF a] Cons.IH [OF b] show ?case unfolding e by (simp add: runOk_append)
qed

lemma renderRemoved_runOk: "renderRemoved now entries st = (rs, st') \<Longrightarrow> runOk st rs st'"
proof (induction entries arbitrary: st rs st')
  case Nil
  then show ?case by (simp add: runOk_Nil)
next
  case (Cons en ens)
  obtain r st1 where m: "mergeRemoved now en st = (r, st1)" by (metis prod.exhaust)
  obtain rs1 st2 where rs: "renderRemoved now ens st1 = (rs1, st2)" by (metis prod.exhaust)
  from Cons.prems m rs have e: "rs = r # rs1" "st' = st2" by simp_all
  from mergeRemoved_stepOk [OF m] Cons.IH [OF rs] show ?case unfolding e by (rule runOk_Cons)
qed

lemma renderPass_runOk:
  assumes "renderPass spec existingMap ids incl now = (rss, removed, st)"
  shows "runOk \<lparr>allTaskIdsOnPage = ids, clockCalls = 0\<rparr> (concat rss @ removed) st"
proof -
  obtain rss1 st1 where a: "renderSections existingMap now (sections spec) \<lparr>allTaskIdsOnPage = ids, clockCalls = 0\<rparr> = (rss1, st1)"
    by (metis prod.exhaust)
  show ?thesis
  proof (cases incl)
    case True
    obtain rem st2 where b: "renderRemoved now (removedEntries spec existingMap) st1 = (rem, st2)"
      by (metis prod.exhaust)
    from assms a b True have e: "rss = rss1" "removed = rem" "st = st2"
      by (simp_all add: renderPass_def)
    from renderSections_runOk [OF a] renderRemoved_runOk [OF b] show ?thesis
      unfolding e by (rule runOk_append)
  next
    case False
    with assms a have e: "rss = rss1" "removed = []" "st = st1"
      by (simp_all add: renderPass_def)
    from renderSections_runOk [OF a] show ?thesis unfolding e by simp
  qed
qed

lemma collect_fold:
  "set (foldl (\<lambda>ids el. if trim (textContent el) \<noteq> [] then setAdd (trim (textContent el)) ids else ids) acc els)
     = set acc \<union> {trim (textContent el) | el. el \<in> set els \<and> trim (textContent el) \<noteq> []}"
  by (induction els arbitrary: acc) (auto simp: set_setAdd)

lemma collectAllTaskIdsOnPage_set:
  "set (collectAllTaskIdsOnPage storageXml) =
     {trim (textContent el) | el. el \<in> set (filter (isTag ''ac:task-id'') (elements (load storageXml)))
        \<and> trim (textContent el) \<noteq> []}"
  unfolding collectAllTaskIdsOnPage_def collect_fold by simp

lemma mergeItem_fresh:
  "r_fresh (fst (mergeItem existingMap now item st)) = (priorTaskId (map_of existingMap (item_id item)) = None)"
  by (auto simp: mergeItem_def mergedTaskId_def Let_def split: prod.splits option.splits)

lemma mergeRemoved_fresh:
  "r_fresh (fst (mergeRemoved now entry st)) = (priorTaskId (Some (snd entry)) = None)"
  by (auto simp: mergeRemoved_def mergedTaskId_def Let_def split: prod.splits option.splits)

lemma renderItems_fresh:
  "map r_fresh (fst (renderItems existingMap now its st)) =
     map (\<lambda>it. priorTaskId (map_of existingMap (item_id it)) = None) its"
proof (induction its arbitrary: st)
  case Nil
  show ?case by simp
next
  case (Cons it its)
  obtain r st1 where m: "mergeItem existingMap now it st = (r, st1)" by (metis prod.exhaust)
  obtain rs st2 where rs: "renderItems existingMap now its st1 = (rs, st2)" by (metis prod.exhaust)
  from mergeItem_fresh [of existingMap now it st] m
  have "r_fresh r = (priorTaskId (map_of existingMap (item_id it)) = None)" by simp
  moreover from Cons.IH [of st1] rs
  have "map r_fresh rs = map (\<lambda>it. priorTaskId (map_of existingMap (item_id it)) = None) its" by simp
  ultimately show ?case using m rs by simp
qed

lemma renderSections_fresh:
  "map (map r_fresh) (fst (renderSections existingMap now secs st)) =
     map (\<lambda>sec. map (\<lambda>it. priorTaskId (map_of existingMap (item_id it)) = None) (items sec)) secs"
proof (induction secs arbitrary: st)
  case Nil
  show ?case by simp
next
  case (Cons sec secs)
  obtain rs st1 where a: "renderItems existingMap now (items sec) st = (rs, st1)" by (metis prod.exhaust)
  obtain rss st2 where b: "renderSections existingMap now secs st1 = (rss, st2)" by (metis prod.exhaust)
  from renderItems_fresh [of existingMap now "items sec" st] a
  have "map r_fresh rs = map (\<lambda>it. priorTaskId (map_of existingMap (item_id it)) = None) (items sec)" by simp
  moreover from Cons.IH [of st1] b
  have "map (map r_fresh) rss =
     map (\<lambda>sec. map (\<lambda>it. priorTaskId (map_of existingMap (item_id it)) = None) (items sec)) secs" by simp
  ultimately show ?case using a b by simp
qed

lemma renderRemoved_fresh:
  "map r_fresh (fst (renderRemoved now entries st)) = map (\<lambda>en. priorTaskId (Some (snd en)) = None) entries"
proof (induction entries arbitrary: st)
  case Nil
  show ?case by simp
next
  case (Cons en ens)
  obtain r st1 where m: "mergeRemoved now en st = (r, st1)" by (metis prod.exhaust)
  obtain rs st2 where rs: "renderRemoved now ens st1 = (rs, st2)" by (metis prod.exhaust)
  from mergeRemoved_fresh [of now en st] m
  have "r_fresh r = (priorTaskId (Some (snd en)) = None)" by simp
  moreover from Cons.IH [of st1] rs
  have "map r_fresh rs = map (\<lambda>en. priorTaskId (Some (snd en)) = None) ens" by simp
  ultimately show ?case using m rs by simp
qed

lemma renderPass_removed:
  "fst (snd (renderPass spec existingMap ids incl now)) =
     (if incl then fst (renderRemoved now (removedEntries spec existingMap)
        (snd (renderSections existingMap now (sections spec) \<lparr>allTaskIdsOnPage = ids, clockCalls = 0\<rparr>)))
      else [])"
  by (simp add: renderPass_def Let_def split: prod.splits)

text \<open>
  Claim C5. An identifier that the allocator returns is not in the set of reserved
  identifiers when it is returned, and is in it afterwards. In a render pass that starts
  from the identifiers collected over the whole page, the identifiers allocated for the
  sections and for the appendix of removed items are pairwise distinct, and none of them
  is the identifier of a task anywhere on the page. An identifier is allocated exactly
  for the tasks whose index entry has no task identifier.
\<close>

theorem C5_allocated_ids_disjoint:
  assumes "renderPass spec existingMap (collectAllTaskIdsOnPage storageXml) includeRemovedSection now
             = (rss, removed, st)"
  shows "distinct (freshIds (concat rss @ removed))
     \<and> (\<forall>el \<in> set (filter (isTag ''ac:task-id'') (elements (load storageXml))).
           trim (textContent el) \<notin> set (freshIds (concat rss @ removed)))
     \<and> set (allTaskIdsOnPage st)
           = set (collectAllTaskIdsOnPage storageXml) \<union> set (freshIds (concat rss @ removed))
     \<and> map (map r_fresh) rss
           = map (\<lambda>sec. map (\<lambda>it. priorTaskId (map_of existingMap (item_id it)) = None) (items sec))
               (sections spec)
     \<and> map r_fresh removed
           = (if includeRemovedSection
              then map (\<lambda>en. priorTaskId (Some (snd en)) = None) (removedEntries spec existingMap)
              else [])
     \<and> (\<forall>st0 newId st1. allocateTaskId now st0 = (newId, st1)
           \<longrightarrow> newId \<notin> set (allTaskIdsOnPage st0)
               \<and> set (allTaskIdsOnPage st1) = insert newId (set (allTaskIdsOnPage st0)))"
proof -
  let ?F = "freshIds (concat rss @ removed)"
  from renderPass_runOk [OF assms]
  have d: "distinct ?F" and ne: "[] \<notin> set ?F"
    and disj: "set ?F \<inter> set (collectAllTaskIdsOnPage storageXml) = {}"
    and fin: "set (allTaskIdsOnPage st) = set (collectAllTaskIdsOnPage storageXml) \<union> set ?F"
    by (simp_all add: runOk_def)
  have page: "\<forall>el \<in> set (filter (isTag ''ac:task-id'') (elements (load storageXml))).
           trim (textContent el) \<notin> set ?F"
  proof
    fix el assume el: "el \<in> set (filter (isTag ''ac:task-id'') (elements (load storageXml)))"
    show "trim (textContent el) \<notin> set ?F"
    proof (cases "trim (textContent el) = []")
      case True
      with ne show ?thesis by simp
    next
      case False
      with el have "trim (textContent el) \<in> set (collectAllTaskIdsOnPage storageXml)"
        unfolding collectAllTaskIdsOnPage_set by blast
      with disj show ?thesis by blast
    qed
  qed
  have m: "map (map r_fresh) rss
           = map (\<lambda>sec. map (\<lambda>it. priorTaskId (map_of existingMap (item_id it)) = None) (items sec))
               (sections spec)"
    using renderSections_fresh [of existingMap now "sections spec"]
      renderPass_main [of spec existingMap "collectAllTaskIdsOnPage storageXml" includeRemovedSection now]
      assms by simp
  have r: "map r_fresh removed
           = (if includeRemovedSection
              then map (\<lambda>en. priorTaskId (Some (snd en)) = None) (removedEntries spec existingMap)
              else [])"
    using renderPass_removed [of spec existingMap "collectAllTaskIdsOnPage storageXml" includeRemovedSection now]
      assms by (simp add: renderRemoved_fresh)
  have a: "\<forall>st0 newId st1. allocateTaskId now st0 = (newId, st1)
           \<longrightarrow> newId \<notin> set (allTaskIdsOnPage st0)
               \<and> set (allTaskIdsOnPage st1) = insert newId (set (allTaskIdsOnPage st0))"
    using allocateTaskId_new by blast
  from d page fin m r a show ?thesis by blast
qed

theorem C5_allocated_ids_disjoint_witness:
  "freshIds (concat (fst (renderPass specAB [] (collectAllTaskIdsOnPage pageWithForeignTask) False (\<lambda>k. 41)))
      @ fst (snd (renderPass specAB [] (collectAllTaskIdsOnPage pageWithForeignTask) False (\<lambda>k. 41))))
     = [''42'', ''43'']
   \<and> collectAllTaskIdsOnPage pageWithForeignTask = [''41'']
   \<and> distinct (freshIds (concat (fst (renderPass specAB [] (collectAllTaskIdsOnPage pageWithForeignTask) False (\<lambda>k. 41)))
      @ fst (snd (renderPass specAB [] (collectAllTaskIdsOnPage pageWithForeignTask) False (\<lambda>k. 41)))))"
proof -
  let ?P = "renderPass specAB [] (collectAllTaskIdsOnPage pageWithForeignTask) False (\<lambda>k. 41)"
  have h: "?P = (fst ?P, fst (snd ?P), snd (snd ?P))" by simp
  have v: "freshIds (concat (fst ?P) @ fst (snd ?P)) = [''42'', ''43'']" by code_simp
  have c: "collectAllTaskIdsOnPage pageWithForeignTask = [''41'']" by code_simp
  from C5_allocated_ids_disjoint [OF h] have "distinct (freshIds (concat (fst ?P) @ fst (snd ?P)))" by blast
  with v c show ?thesis by blast
qed

subsection \<open>Reordering\<close>

lemma mergeItem_facts:
  "mergeItem existingMap now item st = (r, st') \<Longrightarrow>
     r_anchorId r = item_id item
     \<and> r_status r = mergedStatus (map_of existingMap (item_id item))
     \<and> (\<forall>t. priorTaskId (map_of existingMap (item_id item)) = Some t \<longrightarrow> r_taskId r = t)"
  by (auto simp: mergeItem_def mergedTaskId_def Let_def split: prod.splits option.splits)

lemma renderItems_fixed:
  "renderItems existingMap now its st = (rs, st') \<Longrightarrow>
     map r_anchorId rs = map item_id its \<and> list_all (fixedBy existingMap) rs"
proof (induction its arbitrary: st rs st')
  case Nil
  then show ?case by simp
next
  case (Cons it its)
  obtain r st1 where m: "mergeItem existingMap now it st = (r, st1)" by (metis prod.exhaust)
  obtain rs1 st2 where rs: "renderItems existingMap now its st1 = (rs1, st2)" by (metis prod.exhaust)
  from Cons.prems m rs have e: "rs = r # rs1" by simp
  from mergeItem_facts [OF m] have "r_anchorId r = item_id it" "fixedBy existingMap r"
    by (simp_all add: fixedBy_def)
  with Cons.IH [OF rs] show ?case unfolding e by simp
qed

lemma renderSections_fixed:
  "renderSections existingMap now secs st = (rss, st') \<Longrightarrow>
     map r_anchorId (concat rss) = map item_id (concat (map items secs))
     \<and> list_all (fixedBy existingMap) (concat rss)"
proof (induction secs arbitrary: st rss st')
  case Nil
  then show ?case by simp
next
  case (Cons sec secs)
  obtain rs st1 where a: "renderItems existingMap now (items sec) st = (rs, st1)" by (metis prod.exhaust)
  obtain rss1 st2 where b: "renderSections existingMap now secs st1 = (rss1, st2)" by (metis prod.exhaust)
  from Cons.prems a b have e: "rss = rs # rss1" by simp
  from renderItems_fixed [OF a] Cons.IH [OF b] show ?case unfolding e by simp
qed

lemma renderPass_fixed:
  "map r_anchorId (concat (fst (renderPass spec existingMap ids incl now))) = specIds spec"
  "list_all (fixedBy existingMap) (concat (fst (renderPass spec existingMap ids incl now)))"
proof -
  obtain rss st where a: "renderSections existingMap now (sections spec) \<lparr>allTaskIdsOnPage = ids, clockCalls = 0\<rparr> = (rss, st)"
    by (metis prod.exhaust)
  then have f: "fst (renderPass spec existingMap ids incl now) = rss" by (simp add: renderPass_main)
  from renderSections_fixed [OF a]
  show "map r_anchorId (concat (fst (renderPass spec existingMap ids incl now))) = specIds spec"
    and "list_all (fixedBy existingMap) (concat (fst (renderPass spec existingMap ids incl now)))"
    unfolding f specIds_def by simp_all
qed

lemma assigned_fixed:
  assumes "map r_anchorId (concat rss) = ks" and "list_all (fixedBy existingMap) (concat rss)"
    and "k \<in> set ks"
  shows "set (map snd (assigned rss k)) = {mergedStatus (map_of existingMap k)}"
    and "priorTaskId (map_of existingMap k) = Some t \<Longrightarrow>
           set (assigned rss k) = {(t, mergedStatus (map_of existingMap k))}"
proof -
  from assms(1,3) have "k \<in> r_anchorId ` set (concat rss)" by (metis set_map)
  then obtain r where r: "r \<in> set (concat rss)" "r_anchorId r = k" by blast
  have all: "\<And>r. r \<in> set (concat rss) \<Longrightarrow> fixedBy existingMap r"
    using assms(2) unfolding list_all_iff by blast
  have img: "set (assigned rss k) = (\<lambda>r. (r_taskId r, r_status r)) ` {r \<in> set (concat rss). r_anchorId r = k}"
    unfolding assigned_def by (simp only: set_map set_filter)
  have st: "\<And>r. r \<in> set (concat rss) \<Longrightarrow> r_anchorId r = k \<Longrightarrow>
      r_status r = mergedStatus (map_of existingMap k)"
    using all unfolding fixedBy_def by blast
  have "snd ` set (assigned rss k) = {mergedStatus (map_of existingMap k)}"
  proof
    show "snd ` set (assigned rss k) \<subseteq> {mergedStatus (map_of existingMap k)}"
      unfolding img using st by auto
    have "(r_taskId r, r_status r) \<in> set (assigned rss k)" unfolding img using r by blast
    then have "r_status r \<in> snd ` set (assigned rss k)" by (metis imageI snd_conv)
    with st [OF r] show "{mergedStatus (map_of existingMap k)} \<subseteq> snd ` set (assigned rss k)" by simp
  qed
  then show "set (map snd (assigned rss k)) = {mergedStatus (map_of existingMap k)}"
    by (simp only: set_map)
  assume t: "priorTaskId (map_of existingMap k) = Some t"
  have ti: "\<And>r. r \<in> set (concat rss) \<Longrightarrow> r_anchorId r = k \<Longrightarrow> r_taskId r = t"
    using all t unfolding fixedBy_def by blast
  show "set (assigned rss k) = {(t, mergedStatus (map_of existingMap k))}"
  proof
    show "set (assigned rss k) \<subseteq> {(t, mergedStatus (map_of existingMap k))}"
      unfolding img using st ti by auto
    have "(r_taskId r, r_status r) \<in> set (assigned rss k)" unfolding img using r by blast
    with st [OF r] ti [OF r] show "{(t, mergedStatus (map_of existingMap k))} \<subseteq> set (assigned rss k)"
      by simp
  qed
qed

text \<open>
  Claim C4, as amended. Take two specifications with the same item identifiers, in any
  order and division into sections, rendered against the same index. Every identifier is
  rendered in both with the same status, the one its index entry gives. Every identifier
  whose index entry has a task identifier is rendered in both with exactly that task
  identifier. The clocks of the two renders need not agree. (An identifier without a
  prior task identifier gets an allocated one, which depends on the clock and on the
  allocations before it: see the counterexample.)
\<close>

theorem C4_prior_ids_position_independent:
  assumes "set (specIds spec1) = set (specIds spec2)" and "k \<in> set (specIds spec1)"
  shows "set (map snd (assigned (fst (renderPass spec1 existingMap ids incl now1)) k))
           = {mergedStatus (map_of existingMap k)}
       \<and> set (map snd (assigned (fst (renderPass spec2 existingMap ids incl now2)) k))
           = {mergedStatus (map_of existingMap k)}
       \<and> (\<forall>t. priorTaskId (map_of existingMap k) = Some t \<longrightarrow>
             set (assigned (fst (renderPass spec1 existingMap ids incl now1)) k)
               = {(t, mergedStatus (map_of existingMap k))}
           \<and> set (assigned (fst (renderPass spec2 existingMap ids incl now2)) k)
               = {(t, mergedStatus (map_of existingMap k))})"
proof -
  from assms have k2: "k \<in> set (specIds spec2)" by simp
  note a1 = assigned_fixed [OF renderPass_fixed [where spec = spec1 and existingMap = existingMap
        and ids = ids and incl = incl and now = now1] assms(2)]
  note a2 = assigned_fixed [OF renderPass_fixed [where spec = spec2 and existingMap = existingMap
        and ids = ids and incl = incl and now = now2] k2]
  from a1 a2 show ?thesis by blast
qed

theorem C4_prior_ids_position_independent_witness:
  "set (specIds specAB) = set (specIds specBA) \<and> ''a'' \<in> set (specIds specAB)
   \<and> priorTaskId (map_of indexA ''a'') = Some ''7''
   \<and> set (assigned (fst (renderPass specAB indexA [''7''] False (\<lambda>k. 41))) ''a'') = {(''7'', ''complete'')}
   \<and> set (assigned (fst (renderPass specBA indexA [''7''] False (\<lambda>k. 41))) ''a'') = {(''7'', ''complete'')}"
proof -
  have h1: "set (specIds specAB) = set (specIds specBA)" by code_simp
  have h2: "''a'' \<in> set (specIds specAB)" by code_simp
  have h3: "priorTaskId (map_of indexA ''a'') = Some ''7''" by code_simp
  have h4: "mergedStatus (map_of indexA ''a'') = ''complete''" by code_simp
  from C4_prior_ids_position_independent [OF h1 h2, of indexA "[''7'']" False "\<lambda>k. 41" "\<lambda>k. 41"] h1 h2 h3 h4
  show ?thesis by simp
qed

text \<open>
  The claim as stated fails for new items: with an empty index and the same clock, the
  anchor \<open>a\<close> gets the first allocated identifier when it comes first and the second
  when it comes second.
\<close>

theorem C4_new_ids_depend_on_order:
  "set (specIds specAB) = set (specIds specBA)
   \<and> assigned (fst (renderPass specAB [] [] False (\<lambda>k. 41))) ''a'' = [(''41'', ''incomplete'')]
   \<and> assigned (fst (renderPass specBA [] [] False (\<lambda>k. 41))) ''a'' = [(''42'', ''incomplete'')]"
  by code_simp

subsection \<open>The existing-item index\<close>

lemma readExistingTasks_fold:
  "readExistingTasks storageXml panelTitle = foldl readTask [] (tasksOfPanel storageXml panelTitle)"
  by (simp add: readExistingTasks_def tasksOfPanel_def split: option.splits)

lemma foldl_last_marker:
  "foldl (\<lambda>anchorId a. if f a \<noteq> [] then Some (f a) else anchorId) init as
     = (if filter (\<lambda>v. v \<noteq> []) (map f as) = [] then init
        else Some (last (filter (\<lambda>v. v \<noteq> []) (map f as))))"
  by (induction as rule: rev_induct) simp_all

lemma anchorIdOf_last:
  "anchorIdOf body = (if markers body = [] then None else Some (last (markers body)))"
  unfolding anchorIdOf_def markers_def by (rule foldl_last_marker)

lemma readTask_lookup:
  "map_of (readTask m task) k =
     (if anchorIdOf (taskBody task) = Some k then Some (taskFacts task) else map_of m k)"
  by (cases "anchorIdOf (taskBody task)") (simp_all add: readTask_def update_conv')

lemma foldl_readTask_lookup:
  "map_of (foldl readTask m tasks) k =
     (if filter (\<lambda>t. anchorIdOf (taskBody t) = Some k) tasks = [] then map_of m k
      else Some (taskFacts (last (filter (\<lambda>t. anchorIdOf (taskBody t) = Some k) tasks))))"
  by (induction tasks rule: rev_induct) (simp_all add: readTask_lookup)

lemma readExistingTasks_lookup:
  "map_of (readExistingTasks storageXml panelTitle) k =
     (if filter (\<lambda>t. anchorIdOf (taskBody t) = Some k) (tasksOfPanel storageXml panelTitle) = [] then None
      else Some (taskFacts (last (filter (\<lambda>t. anchorIdOf (taskBody t) = Some k)
              (tasksOfPanel storageXml panelTitle)))))"
  unfolding readExistingTasks_fold foldl_readTask_lookup by simp

lemma taskFacts_explicit:
  "taskFacts t = \<lparr>et_status =
                  (if trim (firstText (filter (isTag ''ac:task-status'') (descendants t))) \<noteq> []
                   then trim (firstText (filter (isTag ''ac:task-status'') (descendants t)))
                   else ''incomplete''),
                et_taskId =
                  (if trim (firstText (filter (isTag ''ac:task-id'') (descendants t))) \<noteq> []
                   then Some (trim (firstText (filter (isTag ''ac:task-id'') (descendants t))))
                   else None),
                et_bodyXml = xml (take 1 (filter (isTag ''ac:task-body'') (descendants t)))\<rparr>"
  by (simp add: taskFacts_def orElse_def taskBody_def Let_def)

lemma markers_explicit:
  "markers (taskBody task) =
         filter (\<lambda>v. v \<noteq> [])
           (map (\<lambda>a. trim (firstText (filter (hasName ''ac:parameter'' []) (descendants a))))
              (concat (map (\<lambda>b. filter (hasName ''ac:structured-macro'' ''anchor'') (descendants b))
                 (take 1 (filter (isTag ''ac:task-body'') (descendants task))))))"
  by (simp add: markers_def anchorValue_def [abs_def] bodyAnchors_def taskBody_def)

lemma last_filter_decomp:
  "P x \<Longrightarrow> \<forall>t \<in> set zs. \<not> P t \<Longrightarrow> last (filter P (ys @ x # zs)) = x"
proof -
  assume p: "P x" and n: "\<forall>t \<in> set zs. \<not> P t"
  from n have "filter P zs = []" by (simp add: filter_empty_conv)
  with p show ?thesis by simp
qed

text \<open>
  Claim C8, as amended. A task of the selected panel whose body has markers (anchor macros
  below its task body whose first parameter with the empty name has a text that, trimmed,
  is not empty) has as its key the value of the last of them in document order; with more
  than one marker, the last one wins. The index entry under that key holds the status,
  the task identifier and the body of the last task of the panel, in document order, that
  has this key. They are those of the task itself when no task after it in the panel has
  the same key. (A task nested in its body comes after it and its markers are markers of
  the body: see the counterexample.)
\<close>

theorem C8_last_marker_wins:
  assumes "task \<in> set (tasksOfPanel storageXml panelTitle)"
    and "markers (taskBody task) \<noteq> []"
  shows "anchorIdOf (taskBody task) = Some (last (markers (taskBody task)))
     \<and> markers (taskBody task) =
         filter (\<lambda>v. v \<noteq> [])
           (map (\<lambda>a. trim (firstText (filter (hasName ''ac:parameter'' []) (descendants a))))
              (concat (map (\<lambda>b. filter (hasName ''ac:structured-macro'' ''anchor'') (descendants b))
                 (take 1 (filter (isTag ''ac:task-body'') (descendants task))))))
     \<and> (\<exists>t \<in> set (tasksOfPanel storageXml panelTitle).
           anchorIdOf (taskBody t) = Some (last (markers (taskBody task)))
           \<and> t = last (filter (\<lambda>t. anchorIdOf (taskBody t) = Some (last (markers (taskBody task)))) (tasksOfPanel storageXml panelTitle))
           \<and> map_of (readExistingTasks storageXml panelTitle) (last (markers (taskBody task))) =
               Some \<lparr>et_status =
                  (if trim (firstText (filter (isTag ''ac:task-status'') (descendants t))) \<noteq> []
                   then trim (firstText (filter (isTag ''ac:task-status'') (descendants t)))
                   else ''incomplete''),
                et_taskId =
                  (if trim (firstText (filter (isTag ''ac:task-id'') (descendants t))) \<noteq> []
                   then Some (trim (firstText (filter (isTag ''ac:task-id'') (descendants t))))
                   else None),
                et_bodyXml = xml (take 1 (filter (isTag ''ac:task-body'') (descendants t)))\<rparr>)
     \<and> (\<forall>before after.
           (tasksOfPanel storageXml panelTitle) = before @ task # after
           \<and> (\<forall>t \<in> set after. anchorIdOf (taskBody t) \<noteq> Some (last (markers (taskBody task))))
           \<longrightarrow> map_of (readExistingTasks storageXml panelTitle) (last (markers (taskBody task))) =
               Some \<lparr>et_status =
                  (if trim (firstText (filter (isTag ''ac:task-status'') (descendants task))) \<noteq> []
                   then trim (firstText (filter (isTag ''ac:task-status'') (descendants task)))
                   else ''incomplete''),
                et_taskId =
                  (if trim (firstText (filter (isTag ''ac:task-id'') (descendants task))) \<noteq> []
                   then Some (trim (firstText (filter (isTag ''ac:task-id'') (descendants task))))
                   else None),
                et_bodyXml = xml (take 1 (filter (isTag ''ac:task-body'') (descendants task)))\<rparr>)"
proof -
  let ?P = "\<lambda>t. anchorIdOf (taskBody t) = Some (last (markers (taskBody task)))"
  from assms(2) have k: "anchorIdOf (taskBody task) = Some (last (markers (taskBody task)))"
    by (simp add: anchorIdOf_last)
  with assms(1) have "task \<in> set (filter ?P (tasksOfPanel storageXml panelTitle))" by simp
  then have ne: "filter ?P (tasksOfPanel storageXml panelTitle) \<noteq> []" by (metis empty_iff empty_set)
  then have "last (filter ?P (tasksOfPanel storageXml panelTitle)) \<in> set (filter ?P (tasksOfPanel storageXml panelTitle))" by (rule last_in_set)
  then have l1: "last (filter ?P (tasksOfPanel storageXml panelTitle)) \<in> set (tasksOfPanel storageXml panelTitle)" and l2: "?P (last (filter ?P (tasksOfPanel storageXml panelTitle)))" by simp_all
  from ne have e: "map_of (readExistingTasks storageXml panelTitle) (last (markers (taskBody task)))
      = Some (taskFacts (last (filter ?P (tasksOfPanel storageXml panelTitle))))"
    by (simp add: readExistingTasks_lookup)
  have c2: "(\<exists>t \<in> set (tasksOfPanel storageXml panelTitle).
           anchorIdOf (taskBody t) = Some (last (markers (taskBody task)))
           \<and> t = last (filter (\<lambda>t. anchorIdOf (taskBody t) = Some (last (markers (taskBody task)))) (tasksOfPanel storageXml panelTitle))
           \<and> map_of (readExistingTasks storageXml panelTitle) (last (markers (taskBody task))) =
               Some \<lparr>et_status =
                  (if trim (firstText (filter (isTag ''ac:task-status'') (descendants t))) \<noteq> []
                   then trim (firstText (filter (isTag ''ac:task-status'') (descendants t)))
                   else ''incomplete''),
                et_taskId =
                  (if trim (firstText (filter (isTag ''ac:task-id'') (descendants t))) \<noteq> []
                   then Some (trim (firstText (filter (isTag ''ac:task-id'') (descendants t))))
                   else None),
                et_bodyXml = xml (take 1 (filter (isTag ''ac:task-body'') (descendants t)))\<rparr>)"
    using l1 l2 e unfolding taskFacts_explicit by (intro bexI [of _ "last (filter ?P (tasksOfPanel storageXml panelTitle))"] conjI) simp_all
  have c3: "(\<forall>before after.
           (tasksOfPanel storageXml panelTitle) = before @ task # after
           \<and> (\<forall>t \<in> set after. anchorIdOf (taskBody t) \<noteq> Some (last (markers (taskBody task))))
           \<longrightarrow> map_of (readExistingTasks storageXml panelTitle) (last (markers (taskBody task))) =
               Some \<lparr>et_status =
                  (if trim (firstText (filter (isTag ''ac:task-status'') (descendants task))) \<noteq> []
                   then trim (firstText (filter (isTag ''ac:task-status'') (descendants task)))
                   else ''incomplete''),
                et_taskId =
                  (if trim (firstText (filter (isTag ''ac:task-id'') (descendants task))) \<noteq> []
                   then Some (trim (firstText (filter (isTag ''ac:task-id'') (descendants task))))
                   else None),
                et_bodyXml = xml (take 1 (filter (isTag ''ac:task-body'') (descendants task)))\<rparr>)"
  proof (intro allI impI)
    fix before after
    assume a: "(tasksOfPanel storageXml panelTitle) = before @ task # after
           \<and> (\<forall>t \<in> set after. anchorIdOf (taskBody t) \<noteq> Some (last (markers (taskBody task))))"
    then have "last (filter ?P (before @ task # after)) = task"
      using k by (intro last_filter_decomp) simp_all
    with a have "last (filter ?P (tasksOfPanel storageXml panelTitle)) = task" by simp
    with e show "map_of (readExistingTasks storageXml panelTitle) (last (markers (taskBody task))) =
               Some \<lparr>et_status =
                  (if trim (firstText (filter (isTag ''ac:task-status'') (descendants task))) \<noteq> []
                   then trim (firstText (filter (isTag ''ac:task-status'') (descendants task)))
                   else ''incomplete''),
                et_taskId =
                  (if trim (firstText (filter (isTag ''ac:task-id'') (descendants task))) \<noteq> []
                   then Some (trim (firstText (filter (isTag ''ac:task-id'') (descendants task))))
                   else None),
                et_bodyXml = xml (take 1 (filter (isTag ''ac:task-body'') (descendants task)))\<rparr>"
      unfolding taskFacts_explicit by simp
  qed
  from k markers_explicit c2 c3 show ?thesis by (intro conjI)
qed

theorem C8_last_marker_wins_witness:
  "twoMarkerTask \<in> set (tasksOfPanel twoMarkerPage ''P'')
   \<and> tasksOfPanel twoMarkerPage ''P'' = [twoMarkerTask]
   \<and> markers (taskBody twoMarkerTask) = [''x'', ''y'']
   \<and> anchorIdOf (taskBody twoMarkerTask) = Some ''y''
   \<and> map_of (readExistingTasks twoMarkerPage ''P'') ''y''
       = Some \<lparr>et_status = ''complete'', et_taskId = Some ''7'',
                et_bodyXml = ''<ac:task-body><p><ac:structured-macro ac:name=\"anchor\"><ac:parameter ac:name=\"\">x</ac:parameter></ac:structured-macro> foo <ac:structured-macro ac:name=\"anchor\"><ac:parameter ac:name=\"\">y</ac:parameter></ac:structured-macro> bar</p></ac:task-body>''\<rparr>
   \<and> map_of (readExistingTasks twoMarkerPage ''P'') ''x'' = None"
proof -
  have tp: "tasksOfPanel twoMarkerPage ''P'' = [twoMarkerTask]" by code_simp
  then have h1: "twoMarkerTask \<in> set (tasksOfPanel twoMarkerPage ''P'')" by simp
  have m: "markers (taskBody twoMarkerTask) = [''x'', ''y'']" by code_simp
  then have h2: "markers (taskBody twoMarkerTask) \<noteq> []" by simp
  have s: "trim (firstText (filter (isTag ''ac:task-status'') (descendants twoMarkerTask))) = ''complete''"
    by code_simp
  have i: "trim (firstText (filter (isTag ''ac:task-id'') (descendants twoMarkerTask))) = ''7''"
    by code_simp
  have b: "xml (take 1 (filter (isTag ''ac:task-body'') (descendants twoMarkerTask)))
      = ''<ac:task-body><p><ac:structured-macro ac:name=\"anchor\"><ac:parameter ac:name=\"\">x</ac:parameter></ac:structured-macro> foo <ac:structured-macro ac:name=\"anchor\"><ac:parameter ac:name=\"\">y</ac:parameter></ac:structured-macro> bar</p></ac:task-body>''"
    by code_simp
  have x: "map_of (readExistingTasks twoMarkerPage ''P'') ''x'' = None" by code_simp
  note t = C8_last_marker_wins [OF h1 h2]
  from t [THEN conjunct1] have k: "anchorIdOf (taskBody twoMarkerTask) = Some ''y''" unfolding m by simp
  from t [THEN conjunct2, THEN conjunct2, THEN conjunct2, THEN spec [of _ "[]"], THEN spec [of _ "[]"]]
  have "map_of (readExistingTasks twoMarkerPage ''P'') ''y''
       = Some \<lparr>et_status = ''complete'', et_taskId = Some ''7'',
                et_bodyXml = ''<ac:task-body><p><ac:structured-macro ac:name=\"anchor\"><ac:parameter ac:name=\"\">x</ac:parameter></ac:structured-macro> foo <ac:structured-macro ac:name=\"anchor\"><ac:parameter ac:name=\"\">y</ac:parameter></ac:structured-macro> bar</p></ac:task-body>''\<rparr>"
    unfolding m s i b tp by simp
  with h1 tp m k x show ?thesis by (simp only: simp_thms)
qed

text \<open>
  The claim as stated fails for a task whose body holds a nested task with a marker of
  its own. The markers of the outer task are \<open>x\<close> and \<open>y\<close> and its key is \<open>y\<close>, the
  last; the nested task comes after it, has the key \<open>y\<close> too, and the entry under \<open>y\<close>
  is overwritten with its status, task identifier and body. Those of the outer task
  (\<open>complete\<close>, \<open>7\<close>) are not carried forward, under \<open>y\<close> or under \<open>x\<close>.
\<close>

theorem C8_nested_marker_overwrites:
  "tasksOfPanel nestedMarkersPage ''P'' = [outerMarkedTask, innerMarkedTask]
   \<and> markers (taskBody outerMarkedTask) = [''x'', ''y'']
   \<and> anchorIdOf (taskBody outerMarkedTask) = Some ''y''
   \<and> et_status (taskFacts outerMarkedTask) = ''complete''
   \<and> et_taskId (taskFacts outerMarkedTask) = Some ''7''
   \<and> readExistingTasks nestedMarkersPage ''P''
       = [(''y'', \<lparr>et_status = ''incomplete'', et_taskId = Some ''8'',
                et_bodyXml = ''<ac:task-body><ac:structured-macro ac:name=\"anchor\"><ac:parameter ac:name=\"\">y</ac:parameter></ac:structured-macro> bar</ac:task-body>''\<rparr>)]
   \<and> map_of (readExistingTasks nestedMarkersPage ''P'') ''x'' = None"
  by code_simp

lemma foldl_readTask_removeAll:
  "anchorIdOf (taskBody task) = None \<Longrightarrow>
     foldl readTask m tasks = foldl readTask m (removeAll task tasks)"
proof (induction tasks arbitrary: m)
  case Nil
  show ?case by simp
next
  case (Cons t ts)
  show ?case
  proof (cases "t = task")
    case True
    with Cons.prems have "readTask m t = m" by (simp add: readTask_def)
    with True Cons.IH [OF Cons.prems, of m] show ?thesis by simp
  next
    case False
    with Cons.IH [OF Cons.prems, of "readTask m t"] show ?thesis by simp
  qed
qed

lemma readExistingTasks_source:
  assumes "map_of (readExistingTasks storageXml panelTitle) k = Some e"
  shows "\<exists>t \<in> set (tasksOfPanel storageXml panelTitle).
           anchorIdOf (taskBody t) = Some k \<and> e = taskFacts t"
proof -
  let ?ts = "filter (\<lambda>t. anchorIdOf (taskBody t) = Some k) (tasksOfPanel storageXml panelTitle)"
  from assms have ne: "?ts \<noteq> []" and e: "e = taskFacts (last ?ts)"
    by (auto simp: readExistingTasks_lookup split: if_splits)
  from ne have "last ?ts \<in> set ?ts" by (rule last_in_set)
  then have "last ?ts \<in> set (tasksOfPanel storageXml panelTitle)"
    and "anchorIdOf (taskBody (last ?ts)) = Some k" by simp_all
  with e show ?thesis by blast
qed

lemma mergeItem_source:
  "mergeItem existingMap now item st = (r, st') \<Longrightarrow>
     r_anchorId r = item_id item
     \<and> r_bodyXml r = mergedBody (map_of existingMap (item_id item)) (item_id item) (item_text item)"
  by (auto simp: mergeItem_def Let_def split: prod.splits)

lemma renderItems_source:
  "renderItems existingMap now its st = (rs, st') \<Longrightarrow>
     \<forall>r \<in> set rs. \<exists>it \<in> set its. r_anchorId r = item_id it
       \<and> r_bodyXml r = mergedBody (map_of existingMap (item_id it)) (item_id it) (item_text it)"
proof (induction its arbitrary: st rs st')
  case Nil
  then show ?case by simp
next
  case (Cons it its)
  obtain r st1 where m: "mergeItem existingMap now it st = (r, st1)" by (metis prod.exhaust)
  obtain rs1 st2 where rs: "renderItems existingMap now its st1 = (rs1, st2)" by (metis prod.exhaust)
  from Cons.prems m rs have e: "rs = r # rs1" by simp
  from mergeItem_source [OF m] Cons.IH [OF rs] show ?case unfolding e by auto
qed

lemma renderSections_source:
  "renderSections existingMap now secs st = (rss, st') \<Longrightarrow>
     \<forall>r \<in> set (concat rss). \<exists>it \<in> set (concat (map items secs)). r_anchorId r = item_id it
       \<and> r_bodyXml r = mergedBody (map_of existingMap (item_id it)) (item_id it) (item_text it)"
proof (induction secs arbitrary: st rss st')
  case Nil
  then show ?case by simp
next
  case (Cons sec secs)
  obtain rs st1 where a: "renderItems existingMap now (items sec) st = (rs, st1)" by (metis prod.exhaust)
  obtain rss1 st2 where b: "renderSections existingMap now secs st1 = (rss1, st2)" by (metis prod.exhaust)
  from Cons.prems a b have e: "rss = rs # rss1" by simp
  show ?case unfolding e
  proof
    fix r assume "r \<in> set (concat (rs # rss1))"
    then consider "r \<in> set rs" | "r \<in> set (concat rss1)" by auto
    then show "\<exists>it \<in> set (concat (map items (sec # secs))). r_anchorId r = item_id it
       \<and> r_bodyXml r = mergedBody (map_of existingMap (item_id it)) (item_id it) (item_text it)"
    proof cases
      case 1
      with renderItems_source [OF a] obtain it where "it \<in> set (items sec)"
        "r_anchorId r = item_id it
         \<and> r_bodyXml r = mergedBody (map_of existingMap (item_id it)) (item_id it) (item_text it)"
        by blast
      then show ?thesis by auto
    next
      case 2
      with Cons.IH [OF b] obtain it where "it \<in> set (concat (map items secs))"
        "r_anchorId r = item_id it
         \<and> r_bodyXml r = mergedBody (map_of existingMap (item_id it)) (item_id it) (item_text it)"
        by blast
      then show ?thesis by auto
    qed
  qed
qed

lemma mergeRemoved_source:
  "mergeRemoved now entry st = (r, st') \<Longrightarrow>
     r_anchorId r = fst entry \<and> r_bodyXml r = ensureAnchorInBodyXml (et_bodyXml (snd entry)) (fst entry)"
  by (auto simp: mergeRemoved_def Let_def split: prod.splits)

lemma renderRemoved_source:
  "renderRemoved now entries st = (rs, st') \<Longrightarrow>
     \<forall>r \<in> set rs. \<exists>en \<in> set entries. r_anchorId r = fst en
       \<and> r_bodyXml r = ensureAnchorInBodyXml (et_bodyXml (snd en)) (fst en)"
proof (induction entries arbitrary: st rs st')
  case Nil
  then show ?case by simp
next
  case (Cons en ens)
  obtain r st1 where m: "mergeRemoved now en st = (r, st1)" by (metis prod.exhaust)
  obtain rs1 st2 where rs: "renderRemoved now ens st1 = (rs1, st2)" by (metis prod.exhaust)
  from Cons.prems m rs have e: "rs = r # rs1" by simp
  from mergeRemoved_source [OF m] Cons.IH [OF rs] show ?case unfolding e by auto
qed

lemma renderPass_source:
  assumes "renderPass spec existingMap ids incl now = (rss, removed, st)"
  shows "\<forall>r \<in> set (concat rss). \<exists>it \<in> set (concat (map items (sections spec))). r_anchorId r = item_id it
       \<and> r_bodyXml r = mergedBody (map_of existingMap (item_id it)) (item_id it) (item_text it)"
    and "\<forall>r \<in> set removed. \<exists>en \<in> set existingMap. r_anchorId r = fst en
       \<and> r_bodyXml r = ensureAnchorInBodyXml (et_bodyXml (snd en)) (fst en)"
proof -
  obtain rss1 st1 where a: "renderSections existingMap now (sections spec) \<lparr>allTaskIdsOnPage = ids, clockCalls = 0\<rparr> = (rss1, st1)"
    by (metis prod.exhaust)
  obtain rem st2 where b: "renderRemoved now (removedEntries spec existingMap) st1 = (rem, st2)"
    by (metis prod.exhaust)
  from assms a have e: "rss = rss1" by (simp add: renderPass_def split: if_splits prod.splits)
  from renderSections_source [OF a]
  show "\<forall>r \<in> set (concat rss). \<exists>it \<in> set (concat (map items (sections spec))). r_anchorId r = item_id it
       \<and> r_bodyXml r = mergedBody (map_of existingMap (item_id it)) (item_id it) (item_text it)"
    unfolding e .
  from assms a b have "removed = rem \<or> removed = []"
    by (auto simp: renderPass_def split: if_splits)
  moreover have "set (removedEntries spec existingMap) \<subseteq> set existingMap"
    unfolding removedEntries_def by (rule filter_is_subset)
  with renderRemoved_source [OF b]
  have "\<forall>r \<in> set rem. \<exists>en \<in> set existingMap. r_anchorId r = fst en
       \<and> r_bodyXml r = ensureAnchorInBodyXml (et_bodyXml (snd en)) (fst en)"
    by blast
  ultimately show "\<forall>r \<in> set removed. \<exists>en \<in> set existingMap. r_anchorId r = fst en
       \<and> r_bodyXml r = ensureAnchorInBodyXml (et_bodyXml (snd en)) (fst en)"
    by auto
qed

text \<open>
  Claim C7, as amended. A task of the selected panel whose body has no marker is left out
  of the index: the index is the one read without it, and every entry of the index holds
  the facts of a task that carries the entry's key as its marker. Every body that the
  next render writes is built from an item of the specification and its index entry, or,
  in the appendix, from an index entry. So the task is not rendered as a task of its own.
  All functions involved are total: nothing is raised.
\<close>

theorem C7_orphan_excluded_from_index:
  assumes "task \<in> set (tasksOfPanel storageXml panelTitle)"
    and "anchorIdOf (taskBody task) = None"
    and "renderPass spec (readExistingTasks storageXml panelTitle) ids includeRemovedSection now
           = (rss, removed, st)"
  shows "readExistingTasks storageXml panelTitle
           = foldl readTask [] (removeAll task (tasksOfPanel storageXml panelTitle))
     \<and> (\<forall>k e. map_of (readExistingTasks storageXml panelTitle) k = Some e \<longrightarrow>
           (\<exists>t \<in> set (tasksOfPanel storageXml panelTitle).
              anchorIdOf (taskBody t) = Some k \<and> e = taskFacts t))
     \<and> (\<forall>r \<in> set (concat rss). \<exists>it \<in> set (concat (map items (sections spec))).
           r_anchorId r = item_id it
           \<and> r_bodyXml r = mergedBody (map_of (readExistingTasks storageXml panelTitle) (item_id it))
                 (item_id it) (item_text it))
     \<and> (\<forall>r \<in> set removed. \<exists>en \<in> set (readExistingTasks storageXml panelTitle).
           r_anchorId r = fst en
           \<and> r_bodyXml r = ensureAnchorInBodyXml (et_bodyXml (snd en)) (fst en))"
proof -
  have a: "readExistingTasks storageXml panelTitle
           = foldl readTask [] (removeAll task (tasksOfPanel storageXml panelTitle))"
    unfolding readExistingTasks_fold using assms(2) by (rule foldl_readTask_removeAll)
  have b: "\<forall>k e. map_of (readExistingTasks storageXml panelTitle) k = Some e \<longrightarrow>
           (\<exists>t \<in> set (tasksOfPanel storageXml panelTitle).
              anchorIdOf (taskBody t) = Some k \<and> e = taskFacts t)"
    using readExistingTasks_source by blast
  from a b renderPass_source [OF assms(3)] show ?thesis by blast
qed

theorem C7_orphan_excluded_from_index_witness:
  "orphanTask \<in> set (tasksOfPanel orphanBesidePage ''P'')
   \<and> anchorIdOf (taskBody orphanTask) = None
   \<and> map fst (readExistingTasks orphanBesidePage ''P'') = [''x'']
   \<and> readExistingTasks orphanBesidePage ''P''
       = foldl readTask [] (removeAll orphanTask (tasksOfPanel orphanBesidePage ''P''))
   \<and> orphanTask \<notin> set (elements (load (buildPanelInnerXml specX
         (readExistingTasks orphanBesidePage ''P'') (collectAllTaskIdsOnPage orphanBesidePage)
         True (\<lambda>k. 41))))"
proof -
  let ?ix = "readExistingTasks orphanBesidePage ''P''"
  let ?P = "renderPass specX ?ix (collectAllTaskIdsOnPage orphanBesidePage) True (\<lambda>k. 41)"
  have h1: "orphanTask \<in> set (tasksOfPanel orphanBesidePage ''P'')" by code_simp
  have h2: "anchorIdOf (taskBody orphanTask) = None" by code_simp
  have h3: "?P = (fst ?P, fst (snd ?P), snd (snd ?P))" by simp
  have k: "map fst ?ix = [''x'']" by code_simp
  have n: "orphanTask \<notin> set (elements (load (buildPanelInnerXml specX ?ix
         (collectAllTaskIdsOnPage orphanBesidePage) True (\<lambda>k. 41))))" by code_simp
  from C7_orphan_excluded_from_index [OF h1 h2 h3] h1 h2 k n show ?thesis by blast
qed

text \<open>
  The claim as stated fails for a task without a marker that is nested in the body of a
  task with one: it is not in the index, and the rendered content contains it, inside the
  body that is carried over.
\<close>

theorem C7_nested_orphan_is_rendered:
  "orphanTask \<in> set (tasksOfPanel orphanNestedPage ''P'')
   \<and> anchorIdOf (taskBody orphanTask) = None
   \<and> map fst (readExistingTasks orphanNestedPage ''P'') = [''x'']
   \<and> orphanTask \<in> set (elements (load (buildPanelInnerXml specX
         (readExistingTasks orphanNestedPage ''P'') (collectAllTaskIdsOnPage orphanNestedPage)
         False (\<lambda>k. 41))))"
  by code_simp

section \<open>Properties of the rendered markup\<close>

lemma joinWith_sublist: "x \<in> set xs \<Longrightarrow> sublist x (joinWith sep xs)"
proof (induction sep xs rule: joinWith.induct)
  case (1 sep)
  then show ?case by simp
next
  case (2 sep y)
  then show ?case by simp
next
  case (3 sep a b ys)
  show ?case
  proof (cases "x = a")
    case True
    then show ?thesis by simp
  next
    case False
    with "3.prems" have "x \<in> set (b # ys)" by simp
    then have "sublist x (joinWith sep (b # ys))" by (rule "3.IH")
    then obtain ps ss where "joinWith sep (b # ys) = ps @ x @ ss" unfolding sublist_def by blast
    then have "joinWith sep (a # b # ys) = (a @ sep @ ps) @ x @ ss" by simp
    then show ?thesis unfolding sublist_def by blast
  qed
qed

lemma buildPanelInnerXml_chunks:
  "buildPanelInnerXml spec existingMap ids incl now =
     joinWith NL
       ((case spec_title spec of
           Some t \<Rightarrow> if t \<noteq> [] then [''<h2>'' @ escapeXml t @ ''</h2>''] else []
         | None \<Rightarrow> [])
        @ concat (map2 sectionChunks (sections spec) (fst (renderPass spec existingMap ids incl now)))
        @ removedChunks (fst (snd (renderPass spec existingMap ids incl now))))"
  by (simp add: buildPanelInnerXml_def split: prod.splits)

lemma renderPass_length:
  "length (fst (renderPass spec existingMap ids incl now)) = length (sections spec)"
proof -
  have "length (map (map (\<lambda>r. (r_anchorId r, r_status r)))
      (fst (renderSections existingMap now (sections spec) \<lparr>allTaskIdsOnPage = ids, clockCalls = 0\<rparr>)))
    = length (map (\<lambda>sec. map (\<lambda>it. (item_id it, mergedStatus (map_of existingMap (item_id it)))) (items sec))
        (sections spec))"
    by (simp only: renderSections_status)
  then show ?thesis by (simp add: renderPass_main)
qed

lemma taskXml_in_output:
  assumes "rs \<in> set (fst (renderPass spec existingMap ids incl now))" and "r \<in> set rs"
  shows "sublist (taskXml r) (buildPanelInnerXml spec existingMap ids incl now)"
proof -
  let ?rss = "fst (renderPass spec existingMap ids incl now)"
  from assms(1) obtain i where i: "i < length ?rss" and rs: "?rss ! i = rs"
    by (auto simp: in_set_conv_nth)
  from i have i2: "i < length (sections spec)" by (simp add: renderPass_length)
  from i i2 rs have "(sections spec ! i, rs) \<in> set (zip (sections spec) ?rss)"
    by (auto simp: set_zip)
  then have "sectionChunks (sections spec ! i) rs \<in> set (map2 sectionChunks (sections spec) ?rss)"
    by (metis (mono_tags, lifting) case_prod_conv image_eqI set_map)
  moreover from assms(2) have "taskXml r \<in> set (sectionChunks (sections spec ! i) rs)"
    by (simp add: sectionChunks_def)
  ultimately have "taskXml r \<in> set (concat (map2 sectionChunks (sections spec) ?rss))"
    unfolding set_concat by blast
  then show ?thesis unfolding buildPanelInnerXml_chunks by (intro joinWith_sublist) simp
qed

lemma renderPass_status:
  assumes "rs \<in> set (fst (renderPass spec existingMap ids incl now))" and "r \<in> set rs"
  shows "r_status r =
     (if (\<exists>e. map_of existingMap (r_anchorId r) = Some e \<and> et_status e = ''complete'')
      then ''complete'' else ''incomplete'')"
proof -
  from assms have "r \<in> set (concat (fst (renderPass spec existingMap ids incl now)))" by auto
  with renderPass_fixed(2) [of existingMap spec ids incl now] have "fixedBy existingMap r"
    unfolding list_all_iff by blast
  then have "r_status r = mergedStatus (map_of existingMap (r_anchorId r))" by (simp add: fixedBy_def)
  then show ?thesis by (simp only: mergedStatus_iff)
qed

lemma escapeXml_Cons: "escapeXml (c # s) = escapeXml [c] @ escapeXml s"
  by (simp add: escapeXml_def replaceChar_def)

lemma escapeXml_chars:
  "escapeXml s = concat (map (\<lambda>c.
       if c = CHR ''&'' then ''&amp;'' else if c = CHR ''<'' then ''&lt;''
       else if c = CHR ''>'' then ''&gt;'' else if c = CHR 0x22 then ''&quot;''
       else if c = CHR 0x27 then ''&#39;'' else [c]) s)"
proof (induction s)
  case Nil
  show ?case by (simp add: escapeXml_def replaceChar_def)
next
  case (Cons c s)
  have "escapeXml [c] = (if c = CHR ''&'' then ''&amp;'' else if c = CHR ''<'' then ''&lt;''
       else if c = CHR ''>'' then ''&gt;'' else if c = CHR 0x22 then ''&quot;''
       else if c = CHR 0x27 then ''&#39;'' else [c])"
    by (simp add: escapeXml_def replaceChar_def)
  with Cons.IH show ?case by (subst escapeXml_Cons) simp
qed

lemma renderItems_bodies:
  "list_all2 (\<lambda>r it. r_anchorId r = item_id it
        \<and> r_bodyXml r = mergedBody (map_of existingMap (item_id it)) (item_id it) (item_text it))
     (fst (renderItems existingMap now its st)) its"
proof (induction its arbitrary: st)
  case Nil
  show ?case by simp
next
  case (Cons it its)
  obtain r st1 where m: "mergeItem existingMap now it st = (r, st1)" by (cases "mergeItem existingMap now it st")
  obtain rs st2 where rs: "renderItems existingMap now its st1 = (rs, st2)" by (cases "renderItems existingMap now its st1")
  from mergeItem_anchor_status(1) [of existingMap now it st] mergeItem_body [of existingMap now it st] m
  have "r_anchorId r = item_id it"
    "r_bodyXml r = mergedBody (map_of existingMap (item_id it)) (item_id it) (item_text it)" by simp_all
  moreover from Cons.IH [of st1] rs
  have "list_all2 (\<lambda>r it. r_anchorId r = item_id it
        \<and> r_bodyXml r = mergedBody (map_of existingMap (item_id it)) (item_id it) (item_text it)) rs its" by simp
  ultimately show ?case using m rs by simp
qed

lemma renderSections_bodies:
  "list_all2 (list_all2 (\<lambda>r it. r_anchorId r = item_id it
        \<and> r_bodyXml r = mergedBody (map_of existingMap (item_id it)) (item_id it) (item_text it)))
     (fst (renderSections existingMap now secs st)) (map items secs)"
proof (induction secs arbitrary: st)
  case Nil
  show ?case by simp
next
  case (Cons sec secs)
  obtain rs st1 where a: "renderItems existingMap now (items sec) st = (rs, st1)" by (cases "renderItems existingMap now (items sec) st")
  obtain rss st2 where b: "renderSections existingMap now secs st1 = (rss, st2)" by (cases "renderSections existingMap now secs st1")
  from renderItems_bodies [of existingMap now "items sec" st] a Cons.IH [of st1] b
  show ?case by simp
qed


text \<open>
  Claim C2. For every item of the specification the status written into its rendered
  task is \<open>complete\<close> exactly when the existing-item index maps the item's identifier to
  an entry whose status is \<open>complete\<close>; it is \<open>incomplete\<close> when the identifier is not
  in the index or the entry has any other status. The tasks of a pass are rendered for the
  items of the specification, section by section and item by item, with that status; the
  inner markup of the panel is the title, then for every section its heading and its task
  list, in which every task is written as the \<^verbatim>\<open>ac:task\<close> element with its task
  identifier, the status that the index gives to its item, and its body; so the markup of
  every rendered task, with that status, is part of the markup of the panel. The status
  is a function of the index and the item identifier alone.
\<close>

theorem C2_status_only_from_index:
  "map (map (\<lambda>r. (r_anchorId r, r_status r))) (fst (renderPass spec existingMap ids includeRemovedSection now)) =
     map (\<lambda>sec. map (\<lambda>it. (item_id it,
         if (\<exists>e. map_of existingMap (item_id it) = Some e \<and> et_status e = ''complete'')
         then ''complete'' else ''incomplete'')) (items sec)) (sections spec)
   \<and> buildPanelInnerXml spec existingMap ids includeRemovedSection now =
       joinWith [CHR 0x0A]
         ((case spec_title spec of
             Some t \<Rightarrow> if t \<noteq> [] then [''<h2>'' @ escapeXml t @ ''</h2>''] else []
           | None \<Rightarrow> [])
          @ concat (map2 (\<lambda>sec rs.
               (case heading sec of
                  Some h \<Rightarrow> if h \<noteq> [] then [''<h3>'' @ escapeXml h @ ''</h3>''] else []
                | None \<Rightarrow> [])
               @ [''<ac:task-list>'']
               @ map (\<lambda>r. ''<ac:task>'' @ [CHR 0x0A] @ ''  <ac:task-id>'' @ r_taskId r @ ''</ac:task-id>'' @ [CHR 0x0A]
                  @ ''  <ac:task-status>''
                  @ (if (\<exists>e. map_of existingMap (r_anchorId r) = Some e \<and> et_status e = ''complete'')
                     then ''complete'' else ''incomplete'')
                  @ ''</ac:task-status>'' @ [CHR 0x0A]
                  @ ''  '' @ r_bodyXml r @ [CHR 0x0A] @ ''</ac:task>'') rs
               @ [''</ac:task-list>''])
             (sections spec) (fst (renderPass spec existingMap ids includeRemovedSection now)))
          @ removedChunks (fst (snd (renderPass spec existingMap ids includeRemovedSection now))))
   \<and> (\<forall>rs \<in> set (fst (renderPass spec existingMap ids includeRemovedSection now)). \<forall>r \<in> set rs.
         sublist (''<ac:task>'' @ [CHR 0x0A] @ ''  <ac:task-id>'' @ r_taskId r @ ''</ac:task-id>'' @ [CHR 0x0A]
                  @ ''  <ac:task-status>''
                  @ (if (\<exists>e. map_of existingMap (r_anchorId r) = Some e \<and> et_status e = ''complete'')
                     then ''complete'' else ''incomplete'')
                  @ ''</ac:task-status>'' @ [CHR 0x0A]
                  @ ''  '' @ r_bodyXml r @ [CHR 0x0A] @ ''</ac:task>'')
           (buildPanelInnerXml spec existingMap ids includeRemovedSection now))"
proof (intro conjI ballI)
  show "map (map (\<lambda>r. (r_anchorId r, r_status r))) (fst (renderPass spec existingMap ids includeRemovedSection now)) =
     map (\<lambda>sec. map (\<lambda>it. (item_id it,
         if (\<exists>e. map_of existingMap (item_id it) = Some e \<and> et_status e = ''complete'')
         then ''complete'' else ''incomplete'')) (items sec)) (sections spec)"
    unfolding renderPass_main renderSections_status mergedStatus_iff ..
next
  have t: "\<And>rs r. rs \<in> set (fst (renderPass spec existingMap ids includeRemovedSection now)) \<Longrightarrow> r \<in> set rs \<Longrightarrow> taskXml r = ''<ac:task>'' @ [CHR 0x0A] @ ''  <ac:task-id>'' @ r_taskId r @ ''</ac:task-id>'' @ [CHR 0x0A]
                  @ ''  <ac:task-status>''
                  @ (if (\<exists>e. map_of existingMap (r_anchorId r) = Some e \<and> et_status e = ''complete'')
                     then ''complete'' else ''incomplete'')
                  @ ''</ac:task-status>'' @ [CHR 0x0A]
                  @ ''  '' @ r_bodyXml r @ [CHR 0x0A] @ ''</ac:task>''"
    by (simp add: taskXml_def NL_def renderPass_status)
  have "map2 sectionChunks (sections spec) (fst (renderPass spec existingMap ids includeRemovedSection now)) =
      map2 (\<lambda>sec rs.
               (case heading sec of
                  Some h \<Rightarrow> if h \<noteq> [] then [''<h3>'' @ escapeXml h @ ''</h3>''] else []
                | None \<Rightarrow> [])
               @ [''<ac:task-list>'']
               @ map (\<lambda>r. ''<ac:task>'' @ [CHR 0x0A] @ ''  <ac:task-id>'' @ r_taskId r @ ''</ac:task-id>'' @ [CHR 0x0A]
                  @ ''  <ac:task-status>''
                  @ (if (\<exists>e. map_of existingMap (r_anchorId r) = Some e \<and> et_status e = ''complete'')
                     then ''complete'' else ''incomplete'')
                  @ ''</ac:task-status>'' @ [CHR 0x0A]
                  @ ''  '' @ r_bodyXml r @ [CHR 0x0A] @ ''</ac:task>'') rs
               @ [''</ac:task-list>''])
             (sections spec) (fst (renderPass spec existingMap ids includeRemovedSection now))"
  proof (rule map_cong [OF refl])
    fix x assume "x \<in> set (zip (sections spec) (fst (renderPass spec existingMap ids includeRemovedSection now)))"
    then have "(fst x, snd x) \<in> set (zip (sections spec) (fst (renderPass spec existingMap ids includeRemovedSection now)))"
      by simp
    then have m: "snd x \<in> set (fst (renderPass spec existingMap ids includeRemovedSection now))"
      by (rule set_zip_rightD)
    have "map taskXml (snd x) = map (\<lambda>r. ''<ac:task>'' @ [CHR 0x0A] @ ''  <ac:task-id>'' @ r_taskId r @ ''</ac:task-id>'' @ [CHR 0x0A]
                  @ ''  <ac:task-status>''
                  @ (if (\<exists>e. map_of existingMap (r_anchorId r) = Some e \<and> et_status e = ''complete'')
                     then ''complete'' else ''incomplete'')
                  @ ''</ac:task-status>'' @ [CHR 0x0A]
                  @ ''  '' @ r_bodyXml r @ [CHR 0x0A] @ ''</ac:task>'') (snd x)"
      by (rule map_cong [OF refl]) (rule t [OF m])
    then show "(case x of (sec, rs) \<Rightarrow> sectionChunks sec rs) =
        (case x of (sec, rs) \<Rightarrow>
               (case heading sec of
                  Some h \<Rightarrow> if h \<noteq> [] then [''<h3>'' @ escapeXml h @ ''</h3>''] else []
                | None \<Rightarrow> [])
               @ [''<ac:task-list>'']
               @ map (\<lambda>r. ''<ac:task>'' @ [CHR 0x0A] @ ''  <ac:task-id>'' @ r_taskId r @ ''</ac:task-id>'' @ [CHR 0x0A]
                  @ ''  <ac:task-status>''
                  @ (if (\<exists>e. map_of existingMap (r_anchorId r) = Some e \<and> et_status e = ''complete'')
                     then ''complete'' else ''incomplete'')
                  @ ''</ac:task-status>'' @ [CHR 0x0A]
                  @ ''  '' @ r_bodyXml r @ [CHR 0x0A] @ ''</ac:task>'') rs
               @ [''</ac:task-list>''])"
      by (cases x) (simp add: sectionChunks_def)
  qed
  then show "buildPanelInnerXml spec existingMap ids includeRemovedSection now =
       joinWith [CHR 0x0A]
         ((case spec_title spec of
             Some t \<Rightarrow> if t \<noteq> [] then [''<h2>'' @ escapeXml t @ ''</h2>''] else []
           | None \<Rightarrow> [])
          @ concat (map2 (\<lambda>sec rs.
               (case heading sec of
                  Some h \<Rightarrow> if h \<noteq> [] then [''<h3>'' @ escapeXml h @ ''</h3>''] else []
                | None \<Rightarrow> [])
               @ [''<ac:task-list>'']
               @ map (\<lambda>r. ''<ac:task>'' @ [CHR 0x0A] @ ''  <ac:task-id>'' @ r_taskId r @ ''</ac:task-id>'' @ [CHR 0x0A]
                  @ ''  <ac:task-status>''
                  @ (if (\<exists>e. map_of existingMap (r_anchorId r) = Some e \<and> et_status e = ''complete'')
                     then ''complete'' else ''incomplete'')
                  @ ''</ac:task-status>'' @ [CHR 0x0A]
                  @ ''  '' @ r_bodyXml r @ [CHR 0x0A] @ ''</ac:task>'') rs
               @ [''</ac:task-list>''])
             (sections spec) (fst (renderPass spec existingMap ids includeRemovedSection now)))
          @ removedChunks (fst (snd (renderPass spec existingMap ids includeRemovedSection now))))"
    unfolding buildPanelInnerXml_chunks NL_def by (simp only:)
next
  fix rs r assume m: "rs \<in> set (fst (renderPass spec existingMap ids includeRemovedSection now))" "r \<in> set rs"
  have "taskXml r = ''<ac:task>'' @ [CHR 0x0A] @ ''  <ac:task-id>'' @ r_taskId r @ ''</ac:task-id>'' @ [CHR 0x0A]
                  @ ''  <ac:task-status>''
                  @ (if (\<exists>e. map_of existingMap (r_anchorId r) = Some e \<and> et_status e = ''complete'')
                     then ''complete'' else ''incomplete'')
                  @ ''</ac:task-status>'' @ [CHR 0x0A]
                  @ ''  '' @ r_bodyXml r @ [CHR 0x0A] @ ''</ac:task>''"
    using m by (simp add: taskXml_def NL_def renderPass_status)
  with taskXml_in_output [OF m]
  show "sublist (''<ac:task>'' @ [CHR 0x0A] @ ''  <ac:task-id>'' @ r_taskId r @ ''</ac:task-id>'' @ [CHR 0x0A]
                  @ ''  <ac:task-status>''
                  @ (if (\<exists>e. map_of existingMap (r_anchorId r) = Some e \<and> et_status e = ''complete'')
                     then ''complete'' else ''incomplete'')
                  @ ''</ac:task-status>'' @ [CHR 0x0A]
                  @ ''  '' @ r_bodyXml r @ [CHR 0x0A] @ ''</ac:task>'')
           (buildPanelInnerXml spec existingMap ids includeRemovedSection now)"
    by simp
qed

theorem C2_status_only_from_index_witness:
  "fst (renderPass specAB indexA [''7''] False (\<lambda>k. 41)) =
     [[\<lparr>r_anchorId = ''a'', r_taskId = ''7'', r_status = ''complete'',
        r_bodyXml = ''<ac:task-body><ac:structured-macro ac:name=\"anchor\"><ac:parameter ac:name=\"\">a</ac:parameter></ac:structured-macro> A</ac:task-body>'',
        r_fresh = False\<rparr>,
       \<lparr>r_anchorId = ''b'', r_taskId = ''41'', r_status = ''incomplete'',
        r_bodyXml = ''<ac:task-body><p><ac:structured-macro ac:name=\"anchor\"><ac:parameter ac:name=\"\">b</ac:parameter></ac:structured-macro> B</p></ac:task-body>'',
        r_fresh = True\<rparr>]]
   \<and> sublist (''<ac:task>'' @ [CHR 0x0A] @ ''  <ac:task-id>7</ac:task-id>'' @ [CHR 0x0A]
         @ ''  <ac:task-status>complete</ac:task-status>'' @ [CHR 0x0A]
         @ ''  <ac:task-body><ac:structured-macro ac:name=\"anchor\"><ac:parameter ac:name=\"\">a</ac:parameter></ac:structured-macro> A</ac:task-body>''
         @ [CHR 0x0A] @ ''</ac:task>'')
       (buildPanelInnerXml specAB indexA [''7''] False (\<lambda>k. 41))
   \<and> sublist (''<ac:task>'' @ [CHR 0x0A] @ ''  <ac:task-id>41</ac:task-id>'' @ [CHR 0x0A]
         @ ''  <ac:task-status>incomplete</ac:task-status>'' @ [CHR 0x0A]
         @ ''  <ac:task-body><p><ac:structured-macro ac:name=\"anchor\"><ac:parameter ac:name=\"\">b</ac:parameter></ac:structured-macro> B</p></ac:task-body>''
         @ [CHR 0x0A] @ ''</ac:task>'')
       (buildPanelInnerXml specAB indexA [''7''] False (\<lambda>k. 41))
   \<and> buildPanelInnerXml specAB indexA [''7''] False (\<lambda>k. 41) =
       ''<ac:task-list>'' @ [CHR 0x0A]
       @ ''<ac:task>'' @ [CHR 0x0A] @ ''  <ac:task-id>7</ac:task-id>'' @ [CHR 0x0A]
       @ ''  <ac:task-status>complete</ac:task-status>'' @ [CHR 0x0A]
       @ ''  <ac:task-body><ac:structured-macro ac:name=\"anchor\"><ac:parameter ac:name=\"\">a</ac:parameter></ac:structured-macro> A</ac:task-body>''
       @ [CHR 0x0A] @ ''</ac:task>'' @ [CHR 0x0A]
       @ ''<ac:task>'' @ [CHR 0x0A] @ ''  <ac:task-id>41</ac:task-id>'' @ [CHR 0x0A]
       @ ''  <ac:task-status>incomplete</ac:task-status>'' @ [CHR 0x0A]
       @ ''  <ac:task-body><p><ac:structured-macro ac:name=\"anchor\"><ac:parameter ac:name=\"\">b</ac:parameter></ac:structured-macro> B</p></ac:task-body>''
       @ [CHR 0x0A] @ ''</ac:task>'' @ [CHR 0x0A]
       @ ''</ac:task-list>''"
proof -
  have v: "fst (renderPass specAB indexA [''7''] False (\<lambda>k. 41)) =
     [[\<lparr>r_anchorId = ''a'', r_taskId = ''7'', r_status = ''complete'',
        r_bodyXml = ''<ac:task-body><ac:structured-macro ac:name=\"anchor\"><ac:parameter ac:name=\"\">a</ac:parameter></ac:structured-macro> A</ac:task-body>'',
        r_fresh = False\<rparr>,
       \<lparr>r_anchorId = ''b'', r_taskId = ''41'', r_status = ''incomplete'',
        r_bodyXml = ''<ac:task-body><p><ac:structured-macro ac:name=\"anchor\"><ac:parameter ac:name=\"\">b</ac:parameter></ac:structured-macro> B</p></ac:task-body>'',
        r_fresh = True\<rparr>]]"
    by code_simp
  have o: "buildPanelInnerXml specAB indexA [''7''] False (\<lambda>k. 41) =
       ''<ac:task-list>'' @ [CHR 0x0A]
       @ ''<ac:task>'' @ [CHR 0x0A] @ ''  <ac:task-id>7</ac:task-id>'' @ [CHR 0x0A]
       @ ''  <ac:task-status>complete</ac:task-status>'' @ [CHR 0x0A]
       @ ''  <ac:task-body><ac:structured-macro ac:name=\"anchor\"><ac:parameter ac:name=\"\">a</ac:parameter></ac:structured-macro> A</ac:task-body>''
       @ [CHR 0x0A] @ ''</ac:task>'' @ [CHR 0x0A]
       @ ''<ac:task>'' @ [CHR 0x0A] @ ''  <ac:task-id>41</ac:task-id>'' @ [CHR 0x0A]
       @ ''  <ac:task-status>incomplete</ac:task-status>'' @ [CHR 0x0A]
       @ ''  <ac:task-body><p><ac:structured-macro ac:name=\"anchor\"><ac:parameter ac:name=\"\">b</ac:parameter></ac:structured-macro> B</p></ac:task-body>''
       @ [CHR 0x0A] @ ''</ac:task>'' @ [CHR 0x0A]
       @ ''</ac:task-list>''"
    by code_simp
  have la: "map_of indexA ''a'' = Some \<lparr>et_status = ''complete'', et_taskId = Some ''7'',
      et_bodyXml = ''<ac:task-body>A</ac:task-body>''\<rparr>"
    and lb: "map_of indexA ''b'' = None" by (simp_all add: indexA_def)
  note c = C2_status_only_from_index [of specAB indexA "[''7'']" False "\<lambda>k. 41",
      THEN conjunct2, THEN conjunct2]
  from c have "sublist (''<ac:task>'' @ [CHR 0x0A] @ ''  <ac:task-id>7</ac:task-id>'' @ [CHR 0x0A]
         @ ''  <ac:task-status>complete</ac:task-status>'' @ [CHR 0x0A]
         @ ''  <ac:task-body><ac:structured-macro ac:name=\"anchor\"><ac:parameter ac:name=\"\">a</ac:parameter></ac:structured-macro> A</ac:task-body>''
         @ [CHR 0x0A] @ ''</ac:task>'')
       (buildPanelInnerXml specAB indexA [''7''] False (\<lambda>k. 41))
   \<and> sublist (''<ac:task>'' @ [CHR 0x0A] @ ''  <ac:task-id>41</ac:task-id>'' @ [CHR 0x0A]
         @ ''  <ac:task-status>incomplete</ac:task-status>'' @ [CHR 0x0A]
         @ ''  <ac:task-body><p><ac:structured-macro ac:name=\"anchor\"><ac:parameter ac:name=\"\">b</ac:parameter></ac:structured-macro> B</p></ac:task-body>''
         @ [CHR 0x0A] @ ''</ac:task>'')
       (buildPanelInnerXml specAB indexA [''7''] False (\<lambda>k. 41))"
    unfolding v by (simp add: la lb)
  with v o show ?thesis by (simp only: simp_thms)
qed

lemma taskXml_body_sublist:
  "sublist (''  '' @ r_bodyXml r @ [CHR 0x0A] @ ''</ac:task>'') (taskXml r)"
proof -
  have "taskXml r = (''<ac:task>'' @ NL @ ''  <ac:task-id>'' @ r_taskId r @ ''</ac:task-id>'' @ NL
       @ ''  <ac:task-status>'' @ r_status r @ ''</ac:task-status>'' @ NL)
       @ (''  '' @ r_bodyXml r @ [CHR 0x0A] @ ''</ac:task>'') @ []"
    by (simp add: taskXml_def NL_def)
  then show ?thesis unfolding sublist_def by blast
qed

text \<open>
  Claim C3. Let the index be read from a stored page. The tasks of a pass are rendered for
  the items of the specification, section by section and item by item. For an item whose
  identifier is in the index, the body of the task comes from the stored body and the
  identifier alone (the display text of the specification is not used), and it is exactly
  the stored body when that has the anchor of the identifier: an anchor macro with a
  parameter of the empty name as a child whose text, trimmed, is the identifier. Only an
  item without an index entry gets a freshly built body: the anchor macro with the escaped
  identifier, a space and the escaped display text, in a paragraph. The body is written
  into the markup of the panel as the last part of its task. \<^const>\<open>escapeXml\<close> replaces
  each of the five characters by its entity and keeps every other character.
\<close>

theorem C3_body_reused_verbatim:
  "list_all2 (list_all2 (\<lambda>r item.
        r_anchorId r = item_id item
        \<and> (case map_of (readExistingTasks storageXml panelTitle) (item_id item) of
              None \<Rightarrow>
                r_bodyXml r =
                  ''<ac:task-body><p><ac:structured-macro ac:name=\"anchor\"><ac:parameter ac:name=\"\">''
                  @ escapeXml (item_id item) @ ''</ac:parameter></ac:structured-macro> ''
                  @ escapeXml (item_text item) @ ''</p></ac:task-body>''
            | Some e \<Rightarrow>
                r_bodyXml r = ensureAnchorInBodyXml (et_bodyXml e) (item_id item)
                \<and> (list_ex (\<lambda>el. trim (textContent el) = item_id item)
                      (concat (map (\<lambda>a. filter (hasName ''ac:parameter'' []) (children a))
                         (filter (hasName ''ac:structured-macro'' ''anchor'')
                            (elements (load (et_bodyXml e))))))
                     \<longrightarrow> r_bodyXml r = et_bodyXml e))))
     (fst (renderPass spec (readExistingTasks storageXml panelTitle) ids includeRemovedSection now)) (map items (sections spec))
   \<and> (\<forall>rs \<in> set (fst (renderPass spec (readExistingTasks storageXml panelTitle) ids includeRemovedSection now)). \<forall>r \<in> set rs.
         sublist (''  '' @ r_bodyXml r @ [CHR 0x0A] @ ''</ac:task>'')
           (buildPanelInnerXml spec (readExistingTasks storageXml panelTitle) ids includeRemovedSection now))
   \<and> (\<forall>s. escapeXml s = concat (map (\<lambda>c.
          if c = CHR ''&'' then ''&amp;'' else if c = CHR ''<'' then ''&lt;''
          else if c = CHR ''>'' then ''&gt;'' else if c = CHR 0x22 then ''&quot;''
          else if c = CHR 0x27 then ''&#39;'' else [c]) s))"
proof (intro conjI ballI allI)
  have "list_all2 (list_all2 (\<lambda>r it. r_anchorId r = item_id it
        \<and> r_bodyXml r = mergedBody (map_of (readExistingTasks storageXml panelTitle) (item_id it)) (item_id it) (item_text it)))
     (fst (renderPass spec (readExistingTasks storageXml panelTitle) ids includeRemovedSection now)) (map items (sections spec))"
    unfolding renderPass_main by (rule renderSections_bodies)
  then show "list_all2 (list_all2 (\<lambda>r item.
        r_anchorId r = item_id item
        \<and> (case map_of (readExistingTasks storageXml panelTitle) (item_id item) of
              None \<Rightarrow>
                r_bodyXml r =
                  ''<ac:task-body><p><ac:structured-macro ac:name=\"anchor\"><ac:parameter ac:name=\"\">''
                  @ escapeXml (item_id item) @ ''</ac:parameter></ac:structured-macro> ''
                  @ escapeXml (item_text item) @ ''</p></ac:task-body>''
            | Some e \<Rightarrow>
                r_bodyXml r = ensureAnchorInBodyXml (et_bodyXml e) (item_id item)
                \<and> (list_ex (\<lambda>el. trim (textContent el) = item_id item)
                      (concat (map (\<lambda>a. filter (hasName ''ac:parameter'' []) (children a))
                         (filter (hasName ''ac:structured-macro'' ''anchor'')
                            (elements (load (et_bodyXml e))))))
                     \<longrightarrow> r_bodyXml r = et_bodyXml e))))
     (fst (renderPass spec (readExistingTasks storageXml panelTitle) ids includeRemovedSection now)) (map items (sections spec))"
  proof (rule list_all2_mono)
    fix rs its
    assume "list_all2 (\<lambda>r it. r_anchorId r = item_id it
        \<and> r_bodyXml r = mergedBody (map_of (readExistingTasks storageXml panelTitle) (item_id it)) (item_id it) (item_text it)) rs its"
    then show "list_all2 (\<lambda>r item.
        r_anchorId r = item_id item
        \<and> (case map_of (readExistingTasks storageXml panelTitle) (item_id item) of
              None \<Rightarrow>
                r_bodyXml r =
                  ''<ac:task-body><p><ac:structured-macro ac:name=\"anchor\"><ac:parameter ac:name=\"\">''
                  @ escapeXml (item_id item) @ ''</ac:parameter></ac:structured-macro> ''
                  @ escapeXml (item_text item) @ ''</p></ac:task-body>''
            | Some e \<Rightarrow>
                r_bodyXml r = ensureAnchorInBodyXml (et_bodyXml e) (item_id item)
                \<and> (list_ex (\<lambda>el. trim (textContent el) = item_id item)
                      (concat (map (\<lambda>a. filter (hasName ''ac:parameter'' []) (children a))
                         (filter (hasName ''ac:structured-macro'' ''anchor'')
                            (elements (load (et_bodyXml e))))))
                     \<longrightarrow> r_bodyXml r = et_bodyXml e))) rs its"
    proof (rule list_all2_mono)
      fix r item
      assume a: "r_anchorId r = item_id item
        \<and> r_bodyXml r = mergedBody (map_of (readExistingTasks storageXml panelTitle) (item_id item)) (item_id item) (item_text item)"
      show "r_anchorId r = item_id item
        \<and> (case map_of (readExistingTasks storageXml panelTitle) (item_id item) of
              None \<Rightarrow>
                r_bodyXml r =
                  ''<ac:task-body><p><ac:structured-macro ac:name=\"anchor\"><ac:parameter ac:name=\"\">''
                  @ escapeXml (item_id item) @ ''</ac:parameter></ac:structured-macro> ''
                  @ escapeXml (item_text item) @ ''</p></ac:task-body>''
            | Some e \<Rightarrow>
                r_bodyXml r = ensureAnchorInBodyXml (et_bodyXml e) (item_id item)
                \<and> (list_ex (\<lambda>el. trim (textContent el) = item_id item)
                      (concat (map (\<lambda>a. filter (hasName ''ac:parameter'' []) (children a))
                         (filter (hasName ''ac:structured-macro'' ''anchor'')
                            (elements (load (et_bodyXml e))))))
                     \<longrightarrow> r_bodyXml r = et_bodyXml e))"
      proof (cases "map_of (readExistingTasks storageXml panelTitle) (item_id item)")
        case None
        with a show ?thesis
          by (simp add: mergedBody_def buildNewTaskBodyXml_def anchorXml_def)
      next
        case (Some e)
        from readExistingTasks_bodies [OF Some] have "et_bodyXml e \<noteq> []" .
        with a Some show ?thesis
          by (simp add: mergedBody_def ensureAnchorInBodyXml_def anchorFound_def anchorParams_def)
      qed
    qed
  qed
next
  fix rs r
  assume m: "rs \<in> set (fst (renderPass spec (readExistingTasks storageXml panelTitle) ids includeRemovedSection now))" "r \<in> set rs"
  from taskXml_body_sublist taskXml_in_output [OF m]
  show "sublist (''  '' @ r_bodyXml r @ [CHR 0x0A] @ ''</ac:task>'')
           (buildPanelInnerXml spec (readExistingTasks storageXml panelTitle) ids includeRemovedSection now)"
    by (rule sublist_order.order_trans)
next
  fix s
  show "escapeXml s = concat (map (\<lambda>c.
          if c = CHR ''&'' then ''&amp;'' else if c = CHR ''<'' then ''&lt;''
          else if c = CHR ''>'' then ''&gt;'' else if c = CHR 0x22 then ''&quot;''
          else if c = CHR 0x27 then ''&#39;'' else [c]) s)"
    by (rule escapeXml_chars)
qed

theorem C3_body_reused_verbatim_witness:
  "map_of (readExistingTasks syncedPage ''P'') ''x'' = Some syncedEntry
   \<and> map_of (readExistingTasks syncedPage ''P'') ''y'' = None
   \<and> list_ex (\<lambda>el. trim (textContent el) = ''x'')
       (concat (map (\<lambda>a. filter (hasName ''ac:parameter'' []) (children a))
          (filter (hasName ''ac:structured-macro'' ''anchor'')
             (elements (load (et_bodyXml syncedEntry))))))
   \<and> map (map r_bodyXml) (fst (renderPass specXY (readExistingTasks syncedPage ''P'') [''7''] False (\<lambda>k. 41))) = [[et_bodyXml syncedEntry, ''<ac:task-body><p><ac:structured-macro ac:name=\"anchor\"><ac:parameter ac:name=\"\">y</ac:parameter></ac:structured-macro> a &lt; b</p></ac:task-body>'']]
   \<and> sublist (''  '' @ et_bodyXml syncedEntry @ [CHR 0x0A] @ ''</ac:task>'') (buildPanelInnerXml specXY (readExistingTasks syncedPage ''P'') [''7''] False (\<lambda>k. 41))
   \<and> sublist (''  '' @ ''<ac:task-body><p><ac:structured-macro ac:name=\"anchor\"><ac:parameter ac:name=\"\">y</ac:parameter></ac:structured-macro> a &lt; b</p></ac:task-body>'' @ [CHR 0x0A] @ ''</ac:task>'') (buildPanelInnerXml specXY (readExistingTasks syncedPage ''P'') [''7''] False (\<lambda>k. 41))"
proof -
  have ix: "readExistingTasks syncedPage ''P'' = [(''x'', syncedEntry)]" by code_simp
  have lx: "map_of [(''x'', syncedEntry)] ''x'' = Some syncedEntry" by simp
  have ly: "map_of [(''x'', syncedEntry)] ''y'' = None" by simp
  have fnd: "list_ex (\<lambda>el. trim (textContent el) = ''x'')
       (concat (map (\<lambda>a. filter (hasName ''ac:parameter'' []) (children a))
          (filter (hasName ''ac:structured-macro'' ''anchor'')
             (elements (load (et_bodyXml syncedEntry))))))" by code_simp
  have secs: "map items (sections specXY) =
      [[\<lparr>item_id = ''x'', item_text = ''foo revised''\<rparr>, \<lparr>item_id = ''y'', item_text = ''a < b''\<rparr>]]"
    by (simp add: specXY_def)
  have e1: "escapeXml ''y'' = ''y''" and e2: "escapeXml ''a < b'' = ''a &lt; b''" by code_simp+
  note t = C3_body_reused_verbatim [where spec = specXY and storageXml = syncedPage
      and panelTitle = "''P''" and ids = "[''7'']" and includeRemovedSection = False and now = "\<lambda>k. 41"]
  from t [THEN conjunct1] obtain rx ry where
    rss: "fst (renderPass specXY (readExistingTasks syncedPage ''P'') [''7''] False (\<lambda>k. 41)) = [[rx, ry]]"
    and bx: "r_bodyXml rx = et_bodyXml syncedEntry"
    and bz: "r_bodyXml ry = ''<ac:task-body><p><ac:structured-macro ac:name=\"anchor\"><ac:parameter ac:name=\"\">y</ac:parameter></ac:structured-macro> a &lt; b</p></ac:task-body>''"
    unfolding secs ix by (auto simp: list_all2_Cons2 lx ly fnd e1 e2)
  from t [THEN conjunct2, THEN conjunct1]
  have "sublist (''  '' @ et_bodyXml syncedEntry @ [CHR 0x0A] @ ''</ac:task>'') (buildPanelInnerXml specXY (readExistingTasks syncedPage ''P'') [''7''] False (\<lambda>k. 41))
   \<and> sublist (''  '' @ ''<ac:task-body><p><ac:structured-macro ac:name=\"anchor\"><ac:parameter ac:name=\"\">y</ac:parameter></ac:structured-macro> a &lt; b</p></ac:task-body>'' @ [CHR 0x0A] @ ''</ac:task>'') (buildPanelInnerXml specXY (readExistingTasks syncedPage ''P'') [''7''] False (\<lambda>k. 41))"
    unfolding rss by (simp add: bx bz)
  moreover have "map (map r_bodyXml) (fst (renderPass specXY (readExistingTasks syncedPage ''P'') [''7''] False (\<lambda>k. 41))) = [[et_bodyXml syncedEntry, ''<ac:task-body><p><ac:structured-macro ac:name=\"anchor\"><ac:parameter ac:name=\"\">y</ac:parameter></ac:structured-macro> a &lt; b</p></ac:task-body>'']]"
    unfolding rss by (simp add: bx bz)
  moreover have "map_of (readExistingTasks syncedPage ''P'') ''x'' = Some syncedEntry"
    and "map_of (readExistingTasks syncedPage ''P'') ''y'' = None" unfolding ix by simp_all
  ultimately show ?thesis using fnd by (simp only: simp_thms)
qed

section \<open>Properties of the writer\<close>

lemma payloadOf_version: "payloadOf (p\<lparr>p_version := v\<rparr>) = (payloadOf p)\<lparr>pl_version := v + 1\<rparr>"
  by (simp add: payloadOf_def)

lemma sameContent_refl: "sameContent a a"
  by (simp add: sameContent_def)

lemma sameContent_version: "sameContent (payloadOf p) b \<Longrightarrow> sameContent (payloadOf (p\<lparr>p_version := v\<rparr>)) b"
  by (simp add: sameContent_def payloadOf_version)

lemma sameContent_sym: "sameContent a b \<Longrightarrow> sameContent b a"
  by (simp add: sameContent_def)

lemma sameContent_id: "sameContent a b \<Longrightarrow> pl_id a = pl_id b"
  by (cases a, cases b) (simp add: sameContent_def)

lemma sameContent_trans: "sameContent a b \<Longrightarrow> sameContent a c = sameContent b c"
  by (simp add: sameContent_def)

lemma runShape_cong: "sameContent a b \<Longrightarrow> runShape srv a n h out = runShape srv b n h out"
proof -
  assume ab: "sameContent a b"
  then have e1: "sameContent a = sameContent b" by (intro ext) (rule sameContent_trans)
  from ab have e2: "pl_id a = pl_id b" by (rule sameContent_id)
  show ?thesis unfolding runShape_def e1 e2 ..
qed

lemma puts_append: "puts (xs @ ys) = puts xs @ puts ys"
  by (induction xs rule: puts.induct) simp_all

lemma runShape_extend:
  assumes "runShape srv pl n (h @ [Put sent, GetPage (pl_id pl)]) out" and "sameContent pl sent"
  shows "runShape srv pl (Suc n) h out"
proof -
  let ?h2 = "h @ [Put sent, GetPage (pl_id pl)]"
  let ?new2 = "drop (length ?h2) (snd out)"
  from assms(1) have s: "snd out = ?h2 @ ?new2" and ne: "?new2 \<noteq> []"
    and c1: "1 \<le> length (puts ?new2)" and c2: "length (puts ?new2) \<le> n"
    and sc: "list_all (sameContent pl) (puts ?new2)"
    and l: "(case last ?new2 of
              Put sent \<Rightarrow> fst out = putReply srv (snd out)
                \<and> (case fst out of None \<Rightarrow> True
                     | Some e \<Rightarrow> isConflict e \<longrightarrow> length (puts ?new2) = n)
            | GetPage i \<Rightarrow> i = pl_id pl \<and> (case fst out of None \<Rightarrow> False
                     | Some e \<Rightarrow> getReply srv (snd out) = Inl e))"
    unfolding runShape_def Let_def by blast+
  from s have "snd out = h @ ([Put sent, GetPage (pl_id pl)] @ ?new2)" by simp
  then have d: "drop (length h) (snd out) = [Put sent, GetPage (pl_id pl)] @ ?new2"
    by (metis append_eq_conv_conj)
  have la: "last ([Put sent, GetPage (pl_id pl)] @ ?new2) = last ?new2" using ne by simp
  have pu: "puts ([Put sent, GetPage (pl_id pl)] @ ?new2) = sent # puts ?new2" by simp
  show ?thesis
    unfolding runShape_def Let_def d la pu
    using s ne c1 c2 sc l assms(2)
    by (auto split: request.splits option.splits)
qed

lemma putPageWithRetry_shape:
  "runShape srv (payloadOf p) (Suc retries) h (putPageWithRetry srv p False retries h)"
proof (induction retries arbitrary: p h)
  case 0
  show ?case by (simp add: runShape_def sameContent_refl split: option.splits)
next
  case (Suc r)
  let ?h1 = "h @ [Put (payloadOf p)]"
  let ?h2 = "h @ [Put (payloadOf p), GetPage (p_id p)]"
  show ?case
  proof (cases "putReply srv ?h1")
    case None
    then show ?thesis by (simp add: runShape_def sameContent_refl)
  next
    case (Some e)
    show ?thesis
    proof (cases "isConflict e")
      case False
      with Some show ?thesis by (simp add: runShape_def sameContent_refl)
    next
      case True
      show ?thesis
      proof (cases "getReply srv ?h2")
        case (Inl e')
        with Some True show ?thesis
          by (simp add: runShape_def sameContent_refl payloadOf_def)
      next
        case (Inr latest)
        let ?p' = "p\<lparr>p_version := (case pg_version latest of Some n \<Rightarrow> n | None \<Rightarrow> p_version p)\<rparr>"
        have i: "pl_id (payloadOf p) = p_id p" by (simp add: payloadOf_def)
        from Suc.IH [of ?p' ?h2]
        have "runShape srv (payloadOf ?p') (Suc r) ?h2 (putPageWithRetry srv ?p' False r ?h2)" .
        moreover have "sameContent (payloadOf ?p') (payloadOf p)"
          by (rule sameContent_version) (rule sameContent_refl)
        ultimately have "runShape srv (payloadOf p) (Suc r) ?h2 (putPageWithRetry srv ?p' False r ?h2)"
          by (simp only: runShape_cong)
        then have "runShape srv (payloadOf p) (Suc (Suc r)) h (putPageWithRetry srv ?p' False r ?h2)"
          using runShape_extend [of srv "payloadOf p" "Suc r" h "payloadOf p"] i
          by (simp add: sameContent_refl)
        with Some True Inr show ?thesis by simp
      qed
    qed
  qed
qed

lemma putPageWithRetry_run:
  "\<exists>rest. snd (putPageWithRetry srv p False retries h) = h @ Put (payloadOf p) # rest
     \<and> retryRun srv retries h (Put (payloadOf p) # rest) (fst (putPageWithRetry srv p False retries h))"
proof (induction retries arbitrary: p h)
  case 0
  show ?case by (simp split: option.splits)
next
  case (Suc r)
  let ?h1 = "h @ [Put (payloadOf p)]"
  let ?h2 = "h @ [Put (payloadOf p), GetPage (p_id p)]"
  have i: "pl_id (payloadOf p) = p_id p" by (simp add: payloadOf_def)
  show ?case
  proof (cases "putReply srv ?h1")
    case None
    then show ?thesis by simp
  next
    case (Some e)
    show ?thesis
    proof (cases "isConflict e")
      case False
      with Some show ?thesis by simp
    next
      case True
      show ?thesis
      proof (cases "getReply srv ?h2")
        case (Inl e')
        with Some True i show ?thesis by simp
      next
        case (Inr latest)
        let ?p' = "p\<lparr>p_version := (case pg_version latest of Some n \<Rightarrow> n | None \<Rightarrow> p_version p)\<rparr>"
        from Suc.IH [of ?p' ?h2] obtain rest where
          s: "snd (putPageWithRetry srv ?p' False r ?h2) = ?h2 @ Put (payloadOf ?p') # rest"
          and t: "retryRun srv r ?h2 (Put (payloadOf ?p') # rest) (fst (putPageWithRetry srv ?p' False r ?h2))"
          by blast
        have v: "payloadOf ?p' = (payloadOf p)\<lparr>pl_version := (case pg_version latest of Some v \<Rightarrow> v + 1
                                          | None \<Rightarrow> pl_version (payloadOf p))\<rparr>"
          by (simp add: payloadOf_def split: option.splits)
        have e: "putPageWithRetry srv p False (Suc r) h = putPageWithRetry srv ?p' False r ?h2"
          using Some True Inr by simp
        have "snd (putPageWithRetry srv p False (Suc r) h)
            = h @ Put (payloadOf p) # (GetPage (p_id p) # Put (payloadOf ?p') # rest)"
          unfolding e s by simp
        moreover have "retryRun srv (Suc r) h (Put (payloadOf p) # (GetPage (p_id p) # Put (payloadOf ?p') # rest))
            (fst (putPageWithRetry srv p False (Suc r) h))"
          unfolding e using t Some True Inr i v by simp
        ultimately show ?thesis by blast
      qed
    qed
  qed
qed

lemma sameContent_fields:
  "sameContent (payloadOf p) pl \<Longrightarrow>
     pl_storage pl = p_newStorage p \<and> pl_id pl = p_id p \<and> pl_title pl = p_title p"
  by (cases pl) (simp add: sameContent_def payloadOf_def)

lemma putPageWithRetry_steps:
  "(putReply srv (h @ [Put (payloadOf p)]) = None
      \<longrightarrow> putPageWithRetry srv p False retries h = (None, h @ [Put (payloadOf p)]))
   \<and> (\<forall>e. putReply srv (h @ [Put (payloadOf p)]) = Some e \<and> \<not> isConflict e
      \<longrightarrow> putPageWithRetry srv p False retries h = (Some e, h @ [Put (payloadOf p)]))
   \<and> (\<forall>e. putReply srv (h @ [Put (payloadOf p)]) = Some e \<and> isConflict e
      \<longrightarrow> putPageWithRetry srv p False 0 h = (Some e, h @ [Put (payloadOf p)]))
   \<and> (\<forall>e e'. putReply srv (h @ [Put (payloadOf p)]) = Some e \<and> isConflict e
          \<and> getReply srv (h @ [Put (payloadOf p), GetPage (p_id p)]) = Inl e'
      \<longrightarrow> putPageWithRetry srv p False (Suc retries) h
            = (Some e', h @ [Put (payloadOf p), GetPage (p_id p)]))
   \<and> (\<forall>e latest. putReply srv (h @ [Put (payloadOf p)]) = Some e \<and> isConflict e
          \<and> getReply srv (h @ [Put (payloadOf p), GetPage (p_id p)]) = Inr latest
      \<longrightarrow> putPageWithRetry srv p False (Suc retries) h
            = putPageWithRetry srv
                (p\<lparr>p_version := (case pg_version latest of Some n \<Rightarrow> n | None \<Rightarrow> p_version p)\<rparr>)
                False retries (h @ [Put (payloadOf p), GetPage (p_id p)]))
   \<and> putPageWithRetry srv p True retries h = (None, h)"
  by (cases retries) simp_all


text \<open>
  Claim C10. A write that is not a dry run starts with the \<^verbatim>\<open>PUT\<close> of the computed
  payload (the markup, title and page identifier of the parameters, the version after
  the given one) and proceeds as \<^const>\<open>retryRun\<close> with two retries says: the reply to a
  \<^verbatim>\<open>PUT\<close> is returned at once unless it is a version conflict and a retry is left; in
  that case the page is fetched, an error of the fetch is returned, and otherwise the same
  payload is sent again, changed in the version number only, which is the one after the
  fetched version. So at most three \<^verbatim>\<open>PUT\<close> requests are made, all with the same
  markup, and a version conflict is returned only by the third. The steps hold for the
  writer with any number of retries left: a success and an error that is not a version
  conflict end the run after that one request, a version conflict without retries left is
  returned, a version conflict with retries left leads to the fetch and, with the fetched
  version and one retry less, to the rest of the run. A dry run makes no request.
\<close>

theorem C10_bounded_retry_same_content:
  "(\<exists>rest. snd (putPage srv p False h) = h @ Put (payloadOf p) # rest
      \<and> retryRun srv 2 h (Put (payloadOf p) # rest) (fst (putPage srv p False h))
      \<and> length (puts (Put (payloadOf p) # rest)) \<le> 3
      \<and> list_all (\<lambda>pl. pl_storage pl = p_newStorage p \<and> pl_id pl = p_id p \<and> pl_title pl = p_title p)
           (puts (Put (payloadOf p) # rest)))
   \<and> runShape srv (payloadOf p) 3 h (putPage srv p False h)
   \<and> putPage srv p dryRun h = putPageWithRetry srv p dryRun 2 h
   \<and> (\<forall>retries.
        (putReply srv (h @ [Put (payloadOf p)]) = None
          \<longrightarrow> putPageWithRetry srv p False retries h = (None, h @ [Put (payloadOf p)]))
      \<and> (\<forall>e. putReply srv (h @ [Put (payloadOf p)]) = Some e \<and> \<not> isConflict e
          \<longrightarrow> putPageWithRetry srv p False retries h = (Some e, h @ [Put (payloadOf p)]))
      \<and> (\<forall>e. putReply srv (h @ [Put (payloadOf p)]) = Some e \<and> isConflict e
          \<longrightarrow> putPageWithRetry srv p False 0 h = (Some e, h @ [Put (payloadOf p)]))
      \<and> (\<forall>e e'. putReply srv (h @ [Put (payloadOf p)]) = Some e \<and> isConflict e
              \<and> getReply srv (h @ [Put (payloadOf p), GetPage (p_id p)]) = Inl e'
          \<longrightarrow> putPageWithRetry srv p False (Suc retries) h
                = (Some e', h @ [Put (payloadOf p), GetPage (p_id p)]))
      \<and> (\<forall>e latest. putReply srv (h @ [Put (payloadOf p)]) = Some e \<and> isConflict e
              \<and> getReply srv (h @ [Put (payloadOf p), GetPage (p_id p)]) = Inr latest
          \<longrightarrow> putPageWithRetry srv p False (Suc retries) h
                = putPageWithRetry srv
                    (p\<lparr>p_version := (case pg_version latest of Some n \<Rightarrow> n | None \<Rightarrow> p_version p)\<rparr>)
                    False retries (h @ [Put (payloadOf p), GetPage (p_id p)]))
      \<and> putPageWithRetry srv p True retries h = (None, h))
   \<and> (\<forall>v. payloadOf (p\<lparr>p_version := v\<rparr>) = (payloadOf p)\<lparr>pl_version := v + 1\<rparr>)
   \<and> pl_storage (payloadOf p) = p_newStorage p \<and> pl_version (payloadOf p) = p_version p + 1
   \<and> pl_id (payloadOf p) = p_id p \<and> pl_title (payloadOf p) = p_title p"
proof -
  from putPageWithRetry_run [of srv p 2 h] obtain rest where
    s: "snd (putPage srv p False h) = h @ Put (payloadOf p) # rest"
    and t: "retryRun srv 2 h (Put (payloadOf p) # rest) (fst (putPage srv p False h))"
    unfolding putPage_def by blast
  have sh: "runShape srv (payloadOf p) 3 h (putPage srv p False h)"
    using putPageWithRetry_shape [of srv p 2 h] by (simp add: putPage_def numeral_3_eq_3)
  from s have d: "drop (length h) (snd (putPage srv p False h)) = Put (payloadOf p) # rest" by simp
  from sh have n: "length (puts (Put (payloadOf p) # rest)) \<le> 3"
    and c: "list_all (sameContent (payloadOf p)) (puts (Put (payloadOf p) # rest))"
    unfolding runShape_def Let_def d by blast+
  from c have f: "list_all (\<lambda>pl. pl_storage pl = p_newStorage p \<and> pl_id pl = p_id p \<and> pl_title pl = p_title p)
           (puts (Put (payloadOf p) # rest))"
    by (rule list.pred_mono_strong) (rule sameContent_fields)
  have a: "\<exists>rest. snd (putPage srv p False h) = h @ Put (payloadOf p) # rest
      \<and> retryRun srv 2 h (Put (payloadOf p) # rest) (fst (putPage srv p False h))
      \<and> length (puts (Put (payloadOf p) # rest)) \<le> 3
      \<and> list_all (\<lambda>pl. pl_storage pl = p_newStorage p \<and> pl_id pl = p_id p \<and> pl_title pl = p_title p)
           (puts (Put (payloadOf p) # rest))"
    using s t n f by (intro exI [of _ rest] conjI)
  have b: "putPage srv p dryRun h = putPageWithRetry srv p dryRun 2 h" by (rule putPage_def)
  have e: "pl_storage (payloadOf p) = p_newStorage p \<and> pl_version (payloadOf p) = p_version p + 1
   \<and> pl_id (payloadOf p) = p_id p \<and> pl_title (payloadOf p) = p_title p"
    by (simp add: payloadOf_def)
  have v: "\<forall>v. payloadOf (p\<lparr>p_version := v\<rparr>) = (payloadOf p)\<lparr>pl_version := v + 1\<rparr>"
    by (simp add: payloadOf_version)
  from a sh b putPageWithRetry_steps [of srv h p] v e show ?thesis
    by (intro conjI allI) (blast | assumption)+
qed

theorem C10_bounded_retry_same_content_witness:
  "putPage flakyServer someParams False []
     = (Some ''HTTP 500 Internal Server Error for PUT'',
        [Put (payloadOf someParams), GetPage ''1'', Put ((payloadOf someParams)\<lparr>pl_version := 8\<rparr>)])
   \<and> putPage brokenServer someParams False []
     = (Some ''HTTP 500 Internal Server Error for PUT'', [Put (payloadOf someParams)])
   \<and> fst (putPage staleServer someParams False []) = Some ''HTTP 409 Conflict for PUT''
   \<and> map pl_version (puts (snd (putPage staleServer someParams False []))) = [4, 8, 10]
   \<and> map pl_storage (puts (snd (putPage staleServer someParams False [])))
       = [''<p>new</p>'', ''<p>new</p>'', ''<p>new</p>'']"
proof -
  let ?h2 = "[] @ [Put (payloadOf someParams), GetPage (p_id someParams)]"
  let ?p' = "someParams\<lparr>p_version := 7\<rparr>"
  have two: "(2::nat) = Suc (Suc 0)" by simp
  have c1: "putReply flakyServer ([] @ [Put (payloadOf someParams)]) = Some ''HTTP 409 Conflict for PUT''"
    by (simp add: flakyServer_def)
  have c2: "isConflict ''HTTP 409 Conflict for PUT''" by code_simp
  have c3: "getReply flakyServer ?h2
      = Inr \<lparr>pg_title = ''changed'', pg_type = ''page'', pg_storage = Some ''other'', pg_version = Some 7\<rparr>"
    by (simp add: flakyServer_def)
  have c4: "putReply flakyServer (?h2 @ [Put (payloadOf ?p')]) = Some ''HTTP 500 Internal Server Error for PUT''"
    by (simp add: flakyServer_def)
  have c5: "\<not> isConflict ''HTTP 500 Internal Server Error for PUT''" by code_simp
  have e7: "payloadOf ?p' = (payloadOf someParams)\<lparr>pl_version := 8\<rparr>" by (simp add: payloadOf_version)
  have i1: "p_id someParams = ''1''" by (simp add: someParams_def)
  note t1 = C10_bounded_retry_same_content [of flakyServer someParams "[]" False]
  note t2 = C10_bounded_retry_same_content [of flakyServer ?p' ?h2 False]
  from t1 have "putPage flakyServer someParams False [] = putPageWithRetry flakyServer someParams False (Suc (Suc 0)) []"
    unfolding two by blast
  also from t1 c1 c2 c3 have "\<dots> = putPageWithRetry flakyServer
      (someParams\<lparr>p_version := (case pg_version \<lparr>pg_title = ''changed'', pg_type = ''page'',
            pg_storage = Some ''other'', pg_version = Some 7\<rparr> of Some n \<Rightarrow> n | None \<Rightarrow> p_version someParams)\<rparr>)
      False (Suc 0) ?h2"
    by blast
  also have "\<dots> = putPageWithRetry flakyServer ?p' False (Suc 0) ?h2" by simp
  also from t2 c4 c5 have "\<dots> = (Some ''HTTP 500 Internal Server Error for PUT'', ?h2 @ [Put (payloadOf ?p')])"
    by blast
  finally have a: "putPage flakyServer someParams False []
     = (Some ''HTTP 500 Internal Server Error for PUT'',
        [Put (payloadOf someParams), GetPage ''1'', Put ((payloadOf someParams)\<lparr>pl_version := 8\<rparr>)])"
    by (simp add: e7 i1)
  have b1: "putReply brokenServer ([] @ [Put (payloadOf someParams)])
      = Some ''HTTP 500 Internal Server Error for PUT''" by (simp add: brokenServer_def)
  from C10_bounded_retry_same_content [of brokenServer someParams "[]" False] b1 c5
  have b: "putPage brokenServer someParams False []
     = (Some ''HTTP 500 Internal Server Error for PUT'', [Put (payloadOf someParams)])" by simp
  have r: "fst (putPage staleServer someParams False []) = Some ''HTTP 409 Conflict for PUT''" by code_simp
  have v: "map pl_version (puts (snd (putPage staleServer someParams False []))) = [4, 8, 10]" by code_simp
  have t: "map pl_storage (puts (snd (putPage staleServer someParams False [])))
       = [''<p>new</p>'', ''<p>new</p>'', ''<p>new</p>'']" by code_simp
  from a b r v t show ?thesis by blast
qed

section \<open>Properties of the region replacer\<close>

lemma nodeAt_Nil: "nodeAt [] r = None"
  by (induction "[] :: node list" r rule: nodeAt.induct) simp_all

lemma nodeAt_Cons:
  "nodeAt ns (i # r) =
     (if i < length ns then (if r = [] then Some (ns ! i) else nodeAt (children (ns ! i)) r) else None)"
  by (cases r) simp_all

lemma setChildren_Cons:
  "setChildren (i # r) new ns =
     (if i < length ns
      then ns[i := withChildren (if r = [] then new else setChildren r new (children (ns ! i))) (ns ! i)]
      else ns)"
  by (cases r) simp_all

lemma length_setChildren: "length (setChildren q new ns) = length ns"
  by (cases q) (simp_all add: setChildren_Cons)

lemma children_withChildren: "children (withChildren cs n) = (if isElement n then cs else [])"
  by (cases n) simp_all

lemma withChildren_twice: "withChildren cs (withChildren cs' n) = withChildren cs n"
  by (cases n) simp_all

lemma children_not_element: "\<not> isElement n \<Longrightarrow> children n = []"
  by (cases n) simp_all

lemma nodeAt_setChildren_same:
  "nodeAt ns q = Some n \<Longrightarrow> nodeAt (setChildren q new ns) q = Some (withChildren new n)"
proof (induction q arbitrary: ns n)
  case Nil
  then show ?case by simp
next
  case (Cons i r)
  from Cons.prems have i: "i < length ns" by (simp add: nodeAt_Cons split: if_splits)
  show ?case
  proof (cases "r = []")
    case True
    with Cons.prems i show ?thesis by (simp add: nodeAt_Cons setChildren_Cons)
  next
    case False
    with Cons.prems i have sub: "nodeAt (children (ns ! i)) r = Some n" by (simp add: nodeAt_Cons)
    have el: "isElement (ns ! i)"
    proof (rule ccontr)
      assume "\<not> isElement (ns ! i)"
      then have "children (ns ! i) = []" by (rule children_not_element)
      with sub show False by (simp add: nodeAt_Nil)
    qed
    from Cons.IH [OF sub] el False i show ?thesis
      by (simp add: nodeAt_Cons setChildren_Cons children_withChildren)
  qed
qed

lemma shallow_withChildren_setChildren:
  "shallow (withChildren (setChildren q new (children n)) n) = shallow n"
  by (cases n) (simp_all add: shallow_def length_setChildren)

lemma nodeAt_setChildren_frame:
  "\<not> prefix q r \<Longrightarrow>
     map_option shallow (nodeAt (setChildren q new ns) r) = map_option shallow (nodeAt ns r)"
proof (induction q arbitrary: ns r)
  case Nil
  then show ?case by simp
next
  case (Cons i q')
  show ?case
  proof (cases r)
    case Nil
    then show ?thesis by simp
  next
    case (Cons j r')
    show ?thesis
    proof (cases "i < length ns")
      case False
      then show ?thesis by (simp add: setChildren_Cons)
    next
      case True
      show ?thesis
      proof (cases "j = i")
        case False
        with True Cons show ?thesis by (simp add: nodeAt_Cons setChildren_Cons)
      next
        case ji: True
        with Cons Cons.prems have np: "\<not> prefix q' r'" by simp
        then have q': "q' \<noteq> []" by auto
        show ?thesis
        proof (cases "r' = []")
          case True
          with ji Cons \<open>i < length ns\<close> q' show ?thesis
            by (simp add: nodeAt_Cons setChildren_Cons shallow_withChildren_setChildren)
        next
          case False
          with ji Cons \<open>i < length ns\<close> q' Cons.IH [OF np, of "children (ns ! i)"] show ?thesis
            by (cases "isElement (ns ! i)")
              (simp_all add: nodeAt_Cons setChildren_Cons children_withChildren children_not_element)
        qed
      qed
    qed
  qed
qed

lemma walk_paths:
  "(\<forall>q n. (q, n) \<in> set (walkNode p c) \<longrightarrow>
      (q = p \<and> n = c) \<or> (\<exists>r. r \<noteq> [] \<and> q = p @ r \<and> nodeAt (children c) r = Some n))"
  "(\<forall>q n. (q, n) \<in> set (walkList p i cs) \<longrightarrow>
      (\<exists>j r. q = p @ (i + j) # r \<and> nodeAt cs (j # r) = Some n))"
proof (induction p c and p i cs rule: walkNode_walkList.induct)
  case (1 p n as cs)
  show ?case
  proof (intro allI impI)
    fix q m assume "(q, m) \<in> set (walkNode p (Element n as cs))"
    then consider "q = p \<and> m = Element n as cs" | "(q, m) \<in> set (walkList p 0 cs)" by auto
    then show "(q = p \<and> m = Element n as cs)
        \<or> (\<exists>r. r \<noteq> [] \<and> q = p @ r \<and> nodeAt (children (Element n as cs)) r = Some m)"
    proof cases
      case 1
      then show ?thesis by simp
    next
      case 2
      with "1.IH" obtain j r where "q = p @ (0 + j) # r" "nodeAt cs (j # r) = Some m" by blast
      then show ?thesis by auto
    qed
  qed
next
  case (7 p i c cs)
  show ?case
  proof (intro allI impI)
    fix q m assume "(q, m) \<in> set (walkList p i (c # cs))"
    then consider "(q, m) \<in> set (walkNode (p @ [i]) c)" | "(q, m) \<in> set (walkList p (Suc i) cs)"
      by auto
    then show "\<exists>j r. q = p @ (i + j) # r \<and> nodeAt (c # cs) (j # r) = Some m"
    proof cases
      case 1
      with "7.IH"(1) consider "q = p @ [i] \<and> m = c"
        | r where "r \<noteq> []" "q = (p @ [i]) @ r" "nodeAt (children c) r = Some m" by blast
      then show ?thesis
      proof cases
        case 1
        then have "q = p @ (i + 0) # []" "nodeAt (c # cs) (0 # []) = Some m" by simp_all
        then show ?thesis by blast
      next
        case 2
        then have "q = p @ (i + 0) # r" "nodeAt (c # cs) (0 # r) = Some m"
          by (simp_all add: nodeAt_Cons)
        then show ?thesis by blast
      qed
    next
      case 2
      with "7.IH"(2) obtain j r where jr: "q = p @ (Suc i + j) # r" "nodeAt cs (j # r) = Some m" by blast
      from jr(1) have "q = p @ (i + Suc j) # r" by simp
      moreover from jr(2) have "nodeAt (c # cs) (Suc j # r) = Some m"
        by (cases "r = []") (auto simp: nodeAt_Cons split: if_splits)
      ultimately show ?thesis by blast
    qed
  qed
qed simp_all

lemma walk_top: "(q, n) \<in> set (walkList [] 0 ns) \<Longrightarrow> q \<noteq> [] \<and> nodeAt ns q = Some n"
  using walk_paths(2) [of "[]" 0 ns] by auto

lemma nodeAt_append:
  "nodeAt ns p = Some el \<Longrightarrow> r \<noteq> [] \<Longrightarrow> nodeAt ns (p @ r) = nodeAt (children el) r"
proof (induction p arbitrary: ns)
  case Nil
  then show ?case by simp
next
  case (Cons i p')
  then show ?case by (cases "p' = []") (auto simp: nodeAt_Cons split: if_splits)
qed

lemma find_Some_set: "List.find P xs = Some x \<Longrightarrow> x \<in> set xs \<and> P x"
  by (auto simp: find_Some_iff)

lemma findTarget_node:
  "findTarget doc panelTitle = Some (p, el) \<Longrightarrow>
     p \<noteq> [] \<and> nodeAt doc p = Some el \<and> isTargetPanel panelTitle el"
  unfolding findTarget_def by (auto dest!: find_Some_set walk_top)

lemma firstRichTextBody_node:
  assumes "nodeAt doc p = Some el" and "firstRichTextBody (p, el) = Some q"
  shows "\<exists>body. nodeAt doc q = Some body \<and> isTag ''ac:rich-text-body'' body \<and> strict_prefix p q"
proof -
  from assms(2) obtain body where
    f: "List.find (\<lambda>pn. isTag ''ac:rich-text-body'' (snd pn)) (walkList p 0 (children el)) = Some (q, body)"
    by (auto simp: firstRichTextBody_def)
  then have m: "(q, body) \<in> set (walkList p 0 (children el))" and t: "isTag ''ac:rich-text-body'' body"
    by (auto dest: find_Some_set)
  from m walk_paths(2) [of p 0 "children el"]
  have "\<exists>j r. q = p @ (0 + j) # r \<and> nodeAt (children el) (j # r) = Some body" by blast
  then obtain j r where
    q: "q = p @ j # r" and n: "nodeAt (children el) (j # r) = Some body" by auto
  from nodeAt_append [OF assms(1), of "j # r"] n q have "nodeAt doc q = Some body" by simp
  moreover from q have "strict_prefix p q" by (simp add: strict_prefix_def prefix_def)
  ultimately show ?thesis using t by blast
qed

lemma trim_panelXml:
  "trim (panelXml panelTitle innerXml) = tl (panelXml panelTitle innerXml)"
proof -
  have sp: "isSpace (CHR 0x0A)" "\<not> isSpace CHR ''<''" "\<not> isSpace CHR ''>''" by (simp_all add: isSpace_def)
  obtain s where s: "tl (panelXml panelTitle innerXml) = CHR ''<'' # s @ ''>''"
    by (simp add: panelXml_def NL_def)
  have p: "panelXml panelTitle innerXml = CHR 0x0A # tl (panelXml panelTitle innerXml)"
    by (simp add: panelXml_def NL_def)
  have "trim (panelXml panelTitle innerXml) = trim (CHR 0x0A # CHR ''<'' # s @ ''>'')"
    using p s by simp
  also have "\<dots> = CHR ''<'' # s @ ''>''" using sp by (simp add: trim_def)
  finally show ?thesis using s by simp
qed

lemma setManagedPanel_found:
  "findTarget (load storageXml) panelTitle = Some (p, el) \<Longrightarrow> firstRichTextBody (p, el) = Some q \<Longrightarrow>
     setManagedPanel storageXml panelTitle innerXml = xml (setChildren q (load innerXml) (load storageXml))"
  by (simp add: setManagedPanel_def)

lemma setManagedPanel_appended:
  "findTarget (load storageXml) panelTitle = None \<Longrightarrow>
     setManagedPanel storageXml panelTitle innerXml =
       (if storageXml \<noteq> [] then storageXml @ NL else [])
       @ ''<ac:structured-macro ac:name=\"panel\">'' @ NL
       @ ''  <ac:parameter ac:name=\"title\">'' @ escapeXml panelTitle @ ''</ac:parameter>'' @ NL
       @ ''  <ac:rich-text-body>'' @ NL
       @ innerXml @ NL
       @ ''  </ac:rich-text-body>'' @ NL
       @ ''</ac:structured-macro>'' @ NL"
  by (simp add: setManagedPanel_def trim_panelXml) (simp add: panelXml_def NL_def)

text \<open>
  The replace path and the append path of \<^verbatim>\<open>setManagedPanel\<close>. When a target is
  found and has a rich-text-body, the output is the serialization of the loaded document
  in which the children of the first rich-text-body of the target are the loaded new
  content; every node that is not that rich-text-body or below it keeps its name,
  attributes, character data and number of children. When no target is found, the output
  is the stored text (followed by a line break when it is not empty) followed by a new
  panel with the escaped title and the new content, and a line break.
\<close>

lemma setManagedPanel_frame:
  "(\<forall>p el q. findTarget (load storageXml) panelTitle = Some (p, el) \<and> firstRichTextBody (p, el) = Some q
      \<longrightarrow> (\<exists>body. nodeAt (load storageXml) p = Some el \<and> isTargetPanel panelTitle el
            \<and> nodeAt (load storageXml) q = Some body \<and> isTag ''ac:rich-text-body'' body
            \<and> strict_prefix p q
            \<and> setManagedPanel storageXml panelTitle innerXml
                = xml (setChildren q (load innerXml) (load storageXml))
            \<and> nodeAt (setChildren q (load innerXml) (load storageXml)) q
                = Some (withChildren (load innerXml) body)
            \<and> (\<forall>r. \<not> prefix q r \<longrightarrow>
                  map_option shallow (nodeAt (setChildren q (load innerXml) (load storageXml)) r)
                  = map_option shallow (nodeAt (load storageXml) r))))
   \<and> (\<forall>p el. findTarget (load storageXml) panelTitle = Some (p, el)
      \<longrightarrow> (\<exists>k < length (walkList [] 0 (load storageXml)).
            walkList [] 0 (load storageXml) ! k = (p, el)
            \<and> (\<forall>j < k. \<not> isTargetPanel panelTitle (snd (walkList [] 0 (load storageXml) ! j)))))
   \<and> (findTarget (load storageXml) panelTitle = None
      \<longrightarrow> (\<forall>pn \<in> set (walkList [] 0 (load storageXml)). \<not> isTargetPanel panelTitle (snd pn))
        \<and> setManagedPanel storageXml panelTitle innerXml =
           (if storageXml \<noteq> [] then storageXml @ NL else [])
           @ ''<ac:structured-macro ac:name=\"panel\">'' @ NL
           @ ''  <ac:parameter ac:name=\"title\">'' @ escapeXml panelTitle @ ''</ac:parameter>'' @ NL
           @ ''  <ac:rich-text-body>'' @ NL
           @ innerXml @ NL
           @ ''  </ac:rich-text-body>'' @ NL
           @ ''</ac:structured-macro>'' @ NL)"
proof (intro conjI allI impI ballI)
  fix p el q
  assume a: "findTarget (load storageXml) panelTitle = Some (p, el) \<and> firstRichTextBody (p, el) = Some q"
  then have f: "findTarget (load storageXml) panelTitle = Some (p, el)"
    and b: "firstRichTextBody (p, el) = Some q" by simp_all
  from findTarget_node [OF f] have n: "nodeAt (load storageXml) p = Some el"
    and t: "isTargetPanel panelTitle el" by simp_all
  from firstRichTextBody_node [OF n b] obtain body where
    nb: "nodeAt (load storageXml) q = Some body" and tb: "isTag ''ac:rich-text-body'' body"
    and sp: "strict_prefix p q" by blast
  have fr: "\<forall>r. \<not> prefix q r \<longrightarrow>
      map_option shallow (nodeAt (setChildren q (load innerXml) (load storageXml)) r)
      = map_option shallow (nodeAt (load storageXml) r)"
    by (simp add: nodeAt_setChildren_frame)
  show "\<exists>body. nodeAt (load storageXml) p = Some el \<and> isTargetPanel panelTitle el
            \<and> nodeAt (load storageXml) q = Some body \<and> isTag ''ac:rich-text-body'' body
            \<and> strict_prefix p q
            \<and> setManagedPanel storageXml panelTitle innerXml
                = xml (setChildren q (load innerXml) (load storageXml))
            \<and> nodeAt (setChildren q (load innerXml) (load storageXml)) q
                = Some (withChildren (load innerXml) body)
            \<and> (\<forall>r. \<not> prefix q r \<longrightarrow>
                  map_option shallow (nodeAt (setChildren q (load innerXml) (load storageXml)) r)
                  = map_option shallow (nodeAt (load storageXml) r))"
  proof (rule exI [of _ body], intro conjI)
    show "nodeAt (load storageXml) p = Some el" by (rule n)
    show "isTargetPanel panelTitle el" by (rule t)
    show "nodeAt (load storageXml) q = Some body" by (rule nb)
    show "isTag ''ac:rich-text-body'' body" by (rule tb)
    show "strict_prefix p q" by (rule sp)
    show "setManagedPanel storageXml panelTitle innerXml
                = xml (setChildren q (load innerXml) (load storageXml))"
      by (rule setManagedPanel_found [OF f b])
    show "nodeAt (setChildren q (load innerXml) (load storageXml)) q
                = Some (withChildren (load innerXml) body)"
      by (rule nodeAt_setChildren_same [OF nb])
    show "\<forall>r. \<not> prefix q r \<longrightarrow>
                  map_option shallow (nodeAt (setChildren q (load innerXml) (load storageXml)) r)
                  = map_option shallow (nodeAt (load storageXml) r)"
      by (rule fr)
  qed
next
  fix p el
  assume "findTarget (load storageXml) panelTitle = Some (p, el)"
  then obtain k where k: "k < length (walkList [] 0 (load storageXml))"
    and e: "(p, el) = walkList [] 0 (load storageXml) ! k"
    and m: "\<forall>j < k. \<not> isTargetPanel panelTitle (snd (walkList [] 0 (load storageXml) ! j))"
    unfolding findTarget_def find_Some_iff by blast
  from e have "walkList [] 0 (load storageXml) ! k = (p, el)" by simp
  with k m show "\<exists>k < length (walkList [] 0 (load storageXml)).
            walkList [] 0 (load storageXml) ! k = (p, el)
            \<and> (\<forall>j < k. \<not> isTargetPanel panelTitle (snd (walkList [] 0 (load storageXml) ! j)))"
    by (intro exI [of _ k] conjI)
next
  fix pn
  assume a: "findTarget (load storageXml) panelTitle = None"
    and m: "pn \<in> set (walkList [] 0 (load storageXml))"
  from a have "\<not> (\<exists>x. x \<in> set (walkList [] 0 (load storageXml)) \<and> isTargetPanel panelTitle (snd x))"
    unfolding findTarget_def find_None_iff .
  with m show "\<not> isTargetPanel panelTitle (snd pn)" by blast
next
  assume "findTarget (load storageXml) panelTitle = None"
  then show "setManagedPanel storageXml panelTitle innerXml =
           (if storageXml \<noteq> [] then storageXml @ NL else [])
           @ ''<ac:structured-macro ac:name=\"panel\">'' @ NL
           @ ''  <ac:parameter ac:name=\"title\">'' @ escapeXml panelTitle @ ''</ac:parameter>'' @ NL
           @ ''  <ac:rich-text-body>'' @ NL
           @ innerXml @ NL
           @ ''  </ac:rich-text-body>'' @ NL
           @ ''</ac:structured-macro>'' @ NL"
    by (rule setManagedPanel_appended)
qed

lemma setManagedPanel_frame_example:
  "findTarget (load pageWithPanel) ''P'' = Some ([1], panelNode ''P'' [Element ''p'' [] [Text ''old'']])
   \<and> firstRichTextBody ([1], panelNode ''P'' [Element ''p'' [] [Text ''old'']]) = Some [1, 1]
   \<and> setManagedPanel pageWithPanel ''P'' ''<p>new</p>''
       = xml [Element ''p'' [(''class'', ''intro'')] [Text ''before''],
              panelNode ''P'' [Element ''p'' [] [Text ''new'']]]
   \<and> findTarget (load pageWithForeignTask) ''P'' = None
   \<and> setManagedPanel pageWithForeignTask ''P'' ''<p>new</p>''
       = pageWithForeignTask @ NL
         @ ''<ac:structured-macro ac:name=\"panel\">'' @ NL
         @ ''  <ac:parameter ac:name=\"title\">P</ac:parameter>'' @ NL
         @ ''  <ac:rich-text-body>'' @ NL
         @ ''<p>new</p>'' @ NL
         @ ''  </ac:rich-text-body>'' @ NL
         @ ''</ac:structured-macro>'' @ NL"
proof -
  have h1: "findTarget (load pageWithPanel) ''P'' = Some ([1], panelNode ''P'' [Element ''p'' [] [Text ''old'']])"
    by code_simp
  have h2: "firstRichTextBody ([1], panelNode ''P'' [Element ''p'' [] [Text ''old'']]) = Some [1, 1]"
    by code_simp
  have v: "xml (setChildren [1, 1] (load ''<p>new</p>'') (load pageWithPanel))
      = xml [Element ''p'' [(''class'', ''intro'')] [Text ''before''],
              panelNode ''P'' [Element ''p'' [] [Text ''new'']]]" by code_simp
  have h3: "findTarget (load pageWithForeignTask) ''P'' = None" by code_simp
  have ne: "pageWithForeignTask \<noteq> []" by code_simp
  have e: "escapeXml ''P'' = ''P''" by code_simp
  from setManagedPanel_frame [of pageWithPanel "''P''" "''<p>new</p>''"] h1 h2
  have a: "setManagedPanel pageWithPanel ''P'' ''<p>new</p>''
      = xml (setChildren [1, 1] (load ''<p>new</p>'') (load pageWithPanel))" by blast
  from setManagedPanel_frame [of pageWithForeignTask "''P''" "''<p>new</p>''"] h3 ne e
  have b: "setManagedPanel pageWithForeignTask ''P'' ''<p>new</p>''
       = pageWithForeignTask @ NL
         @ ''<ac:structured-macro ac:name=\"panel\">'' @ NL
         @ ''  <ac:parameter ac:name=\"title\">P</ac:parameter>'' @ NL
         @ ''  <ac:rich-text-body>'' @ NL
         @ ''<p>new</p>'' @ NL
         @ ''  </ac:rich-text-body>'' @ NL
         @ ''</ac:structured-macro>'' @ NL" by simp
  from h1 h2 a v h3 b show ?thesis by simp
qed

text \<open>
  Claim C9 at its failing inputs. A panel with the title \<open>P\<close> and no rich-text-body is
  the target; nothing holds the new content, the output is the page as it was, and the
  sync reports no update although the page has no checklist. A panel without a title that
  encloses the panel titled \<open>P\<close> is taken as the target, because the title is searched
  among all parameters below a panel; the new content replaces the body of the enclosing
  panel, and the paragraph beside the panel titled \<open>P\<close> and that panel itself are gone.
\<close>

theorem C9_wrong_target_or_no_body:
  "map_option fst (findTarget (load bodylessPanelPage) ''P'') = Some [0]
   \<and> setManagedPanel bodylessPanelPage ''P'' ''<p>new</p>'' = bodylessPanelPage
   \<and> \<not> syncUpdated bodylessPanelPage specX False (\<lambda>k. 41)
   \<and> enclosedPanelPage = ''<ac:structured-macro ac:name=\"panel\"><ac:rich-text-body><p>keep</p><ac:structured-macro ac:name=\"panel\"><ac:parameter ac:name=\"title\">P</ac:parameter><ac:rich-text-body><p>old</p></ac:rich-text-body></ac:structured-macro></ac:rich-text-body></ac:structured-macro>''
   \<and> map_option fst (findTarget (load enclosedPanelPage) ''P'') = Some [0]
   \<and> setManagedPanel enclosedPanelPage ''P'' ''<p>new</p>''
       = ''<ac:structured-macro ac:name=\"panel\"><ac:rich-text-body><p>new</p></ac:rich-text-body></ac:structured-macro>''"
  by code_simp

section \<open>The sync as a whole\<close>

lemma firstSynced_value:
  "firstSynced =
     ''<ac:structured-macro ac:name=\"panel\">'' @ NL
     @ ''  <ac:parameter ac:name=\"title\">P</ac:parameter>'' @ NL
     @ ''  <ac:rich-text-body>'' @ NL
     @ ''<ac:task-list>'' @ NL
     @ ''<ac:task>'' @ NL
     @ ''  <ac:task-id>41</ac:task-id>'' @ NL
     @ ''  <ac:task-status>incomplete</ac:task-status>'' @ NL
     @ ''  <ac:task-body><p><ac:structured-macro ac:name=\"anchor\"><ac:parameter ac:name=\"\">x</ac:parameter></ac:structured-macro> foo</p></ac:task-body>'' @ NL
     @ ''</ac:task>'' @ NL
     @ ''</ac:task-list>'' @ NL
     @ ''  </ac:rich-text-body>'' @ NL
     @ ''</ac:structured-macro>'' @ NL"
  by code_simp

lemma secondSynced_value:
  "secondSynced =
     ''<ac:structured-macro ac:name=\"panel\">'' @ NL
     @ ''  <ac:parameter ac:name=\"title\">P</ac:parameter>'' @ NL
     @ ''  <ac:rich-text-body><ac:task-list>'' @ NL
     @ ''<ac:task>'' @ NL
     @ ''  <ac:task-id>41</ac:task-id>'' @ NL
     @ ''  <ac:task-status>incomplete</ac:task-status>'' @ NL
     @ ''  <ac:task-body><p><ac:structured-macro ac:name=\"anchor\"><ac:parameter ac:name=\"\">x</ac:parameter></ac:structured-macro> foo</p></ac:task-body>'' @ NL
     @ ''</ac:task>'' @ NL
     @ ''</ac:task-list></ac:rich-text-body>'' @ NL
     @ ''</ac:structured-macro>'' @ NL"
  by code_simp

lemma thirdSynced_value: "newStorageOf secondSynced specX False (\<lambda>k. 43) = secondSynced"
  unfolding secondSynced_value by code_simp

text \<open>
  Claim C1 at its failing input. The first sync of \<^const>\<open>specX\<close> on an empty page
  appends the panel and writes. The second sync of the same specification on the page so
  written computes a candidate whose normalized text differs from that of the page (the
  appended panel has white space around the content of its rich-text-body, the replaced
  one has none), so it writes again. Only the third sync is a no-op.
\<close>

theorem C1_second_sync_writes_again:
  "syncUpdated [] specX False (\<lambda>k. 41)
   \<and> syncUpdated firstSynced specX False (\<lambda>k. 42)
   \<and> \<not> syncUpdated secondSynced specX False (\<lambda>k. 43)"
proof -
  have a: "syncUpdated [] specX False (\<lambda>k. 41)" by code_simp
  have "normalizeXml firstSynced \<noteq> normalizeXml secondSynced"
    unfolding firstSynced_value secondSynced_value by code_simp
  then have b: "syncUpdated firstSynced specX False (\<lambda>k. 42)"
    by (simp add: syncUpdated_def secondSynced_def)
  have c: "\<not> syncUpdated secondSynced specX False (\<lambda>k. 43)"
    by (simp add: syncUpdated_def thirdSynced_value)
  from a b c show ?thesis by simp
qed

text \<open>
  Claim C6 at its failing inputs. The body rendered for the new item \<open>a&b\<close> holds the
  marker with the escaped text \<open>a&amp;b\<close>; the engine's own test does not find the
  marker of \<open>a&b\<close> in that body, and the next sync reads the task under the key
  \<open>a&amp;b\<close>, so the item has no index entry. Read the other way, with entities
  decoded, the stored marker is the one of \<open>a&b\<close>; then the item \<open>a&amp;b\<close>, which
  the index does match, is rendered with that body unchanged, a body whose only marker is
  not the one of its identifier.
\<close>

theorem C6_escaped_marker_not_found:
  "r_bodyXml (fst (mergeItem [] (\<lambda>k. 41) \<lparr>item_id = ''a&b'', item_text = ''t''\<rparr>
       \<lparr>allTaskIdsOnPage = [], clockCalls = 0\<rparr>))
     = ''<ac:task-body><p><ac:structured-macro ac:name=\"anchor\"><ac:parameter ac:name=\"\">a&amp;b</ac:parameter></ac:structured-macro> t</p></ac:task-body>''
   \<and> \<not> anchorFound (r_bodyXml (fst (mergeItem [] (\<lambda>k. 41) \<lparr>item_id = ''a&b'', item_text = ''t''\<rparr>
       \<lparr>allTaskIdsOnPage = [], clockCalls = 0\<rparr>))) ''a&b''
   \<and> readExistingTasks (newStorageOf [] specAmp False (\<lambda>k. 41)) ''P'' = indexAmp
   \<and> map_of indexAmp ''a&b'' = None
   \<and> r_bodyXml (fst (mergeItem indexAmp (\<lambda>k. 41) \<lparr>item_id = ''a&amp;b'', item_text = ''t''\<rparr>
       \<lparr>allTaskIdsOnPage = [''41''], clockCalls = 0\<rparr>)) = buildNewTaskBodyXml ''a&b'' ''t''
   \<and> map anchorValue (bodyAnchors (load (buildNewTaskBodyXml ''a&b'' ''t''))) = [''a&amp;b'']"
  by code_simp

end
